theory Spec2Isabelle
  imports Complex_Main "HOL-Library.Sublist"
begin

section \<open>JavaScript values and thrown values\<close>

text \<open>
  The analyzer page (\<^verbatim>\<open>src/pages/OrthodonticAnalyzer.tsx\<close>) passes untyped values
  (\<^verbatim>\<open>metadata?: any\<close>) to the usage logger and tests them for truthiness. The values
  that occur are modelled by \<open>jsval\<close>; numbers are the integers the page produces
  (file sizes), so \<^verbatim>\<open>NaN\<close> does not occur.
\<close>

datatype jsval =
    JUndefined
  | JNull
  | JBool bool
  | JNum int
  | JStr string
  | JObj "(string \<times> jsval) list"

fun truthy :: "jsval \<Rightarrow> bool" where
  "truthy JUndefined = False"
| "truthy JNull = False"
| "truthy (JBool b) = b"
| "truthy (JNum n) = (n \<noteq> 0)"
| "truthy (JStr s) = (s \<noteq> [])"
| "truthy (JObj fields) = True"

text \<open>
  A thrown (or rejected-with) value: an instance of \<^verbatim>\<open>Error\<close> carrying its
  \<^verbatim>\<open>message\<close>, or any other value. The page tells the two apart with
  \<^verbatim>\<open>error instanceof Error ? error.message : 'Unknown error'\<close>.
\<close>

datatype exn = Error (message: string) | NonError

fun errorMessageOf :: "exn \<Rightarrow> string" where
  "errorMessageOf (Error m) = m"
| "errorMessageOf NonError = ''Unknown error''"

section \<open>The lazy backend client (integrations/supabase/safeClient.ts)\<close>

text \<open>
  \<^verbatim>\<open>getSupabaseClient\<close> returns the cached client when there is one, throws when the
  URL or the key of the build environment is missing (undefined or empty), and otherwise
  imports the generated client module and caches it. The environment variables are
  \<open>None\<close> when undefined; \<open>import_client\<close> is the outcome of the dynamic import
  (\<open>Some e\<close> when it rejects with \<open>e\<close>). The function returns the outcome
  (\<open>Inl\<close> the thrown value) and the new value of the module variable \<open>cachedClient\<close>
  (\<open>True\<close> when a client is cached).
\<close>

record client_env =
  VITE_SUPABASE_URL :: "string option"
  VITE_SUPABASE_PUBLISHABLE_KEY :: "string option"
  import_client :: "exn option"

definition falsy_string :: "string option \<Rightarrow> bool" where
  "falsy_string v = (case v of None \<Rightarrow> True | Some s \<Rightarrow> s = [])"

definition getSupabaseClient :: "client_env \<Rightarrow> bool \<Rightarrow> (exn + unit) \<times> bool" where
  "getSupabaseClient env cachedClient =
     (if cachedClient then (Inr (), cachedClient)
      else if falsy_string (VITE_SUPABASE_URL env) \<or> falsy_string (VITE_SUPABASE_PUBLISHABLE_KEY env)
        then (Inl (Error ''Backend is not fully configured yet. Please try again in a moment.''),
              cachedClient)
      else (case import_client env of
              Some e \<Rightarrow> (Inl e, cachedClient)
            | None \<Rightarrow> (Inr (), True)))"

section \<open>The usage logger\<close>

text \<open>
  \<^verbatim>\<open>getSessionId\<close> reads the item \<^verbatim>\<open>ortho_session_id\<close> of the tab's session storage and,
  when it is missing or empty, stores and returns a fresh identifier. The fresh identifier
  (built from the clock and a random number in the source) is an input of the model.
\<close>

definition getSessionId :: "string \<Rightarrow> string option \<Rightarrow> string \<times> string option" where
  "getSessionId fresh storage =
     (case storage of
        None \<Rightarrow> (fresh, Some fresh)
      | Some sessionId \<Rightarrow> if sessionId = [] then (fresh, Some fresh) else (sessionId, storage))"

text \<open>A row of the remote table \<^verbatim>\<open>orthodontic_usage_logs\<close>; \<open>None\<close> is \<^verbatim>\<open>null\<close>.\<close>

record usage_row =
  event_type :: string
  session_id :: string
  metadata :: jsval
  error_message :: "string option"

text \<open>
  The outcome of awaiting the insert: the promise rejects, or it resolves to a result
  object whose \<^verbatim>\<open>error\<close> field is set when the backend refused the row.
\<close>

datatype insert_outcome = InsertRejects exn | InsertResolves "exn option"

record log_env =
  client :: client_env
  fresh_session_id :: string
  storage_error :: "exn option"
  insert_result :: insert_outcome

text \<open>
  What the logger can touch: the module variable \<open>cachedClient\<close>, the session storage
  item, the remote table and the console.
\<close>

record world =
  cachedClient :: bool
  sessionStorage :: "string option"
  usage_logs :: "usage_row list"
  console_errors :: "(string \<times> exn) list"

datatype 'a promise = Resolved 'a | Rejected exn

text \<open>\<^verbatim>\<open>metadata || null\<close> and \<^verbatim>\<open>errorMessage || null\<close>.\<close>

definition metadata_or_null :: "jsval \<Rightarrow> jsval" where
  "metadata_or_null m = (if truthy m then m else JNull)"

definition errorMessage_or_null :: "string option \<Rightarrow> string option" where
  "errorMessage_or_null e = (if falsy_string e then None else e)"

text \<open>
  The body of the \<^verbatim>\<open>try\<close> block of \<^verbatim>\<open>logUsageEvent\<close>: \<open>Inl e\<close> when it throws \<open>e\<close>.
  The client is awaited first; the argument of \<^verbatim>\<open>insert\<close> is built next (this is where
  \<^verbatim>\<open>getSessionId\<close> runs, and where an inaccessible session storage throws); the insert
  is awaited last. A result object with an error is not inspected by the source.
\<close>

definition logUsageEvent_try ::
  "log_env \<Rightarrow> string \<Rightarrow> jsval \<Rightarrow> string option \<Rightarrow> world \<Rightarrow> (exn + unit) \<times> world" where
  "logUsageEvent_try env eventType metadata_arg errorMessage w =
     (case getSupabaseClient (client env) (cachedClient w) of
        (Inl e, c) \<Rightarrow> (Inl e, w\<lparr>cachedClient := c\<rparr>)
      | (Inr u, c) \<Rightarrow>
          (case storage_error env of
             Some e \<Rightarrow> (Inl e, w\<lparr>cachedClient := c\<rparr>)
           | None \<Rightarrow>
               (let (sid, storage) = getSessionId (fresh_session_id env) (sessionStorage w);
                    row = \<lparr>event_type = eventType, session_id = sid,
                           metadata = metadata_or_null metadata_arg,
                           error_message = errorMessage_or_null errorMessage\<rparr>;
                    w1 = w\<lparr>cachedClient := c, sessionStorage := storage\<rparr>
                in (case insert_result env of
                      InsertRejects e \<Rightarrow> (Inl e, w1)
                    | InsertResolves (Some e) \<Rightarrow> (Inr (), w1)
                    | InsertResolves None \<Rightarrow>
                        (Inr (), w1\<lparr>usage_logs := usage_logs w1 @ [row]\<rparr>)))))"

text \<open>
  \<^verbatim>\<open>logUsageEvent\<close>: the \<^verbatim>\<open>catch\<close> block writes the thrown value to the console and
  falls through, so the async function's promise resolves either way. An omitted
  \<^verbatim>\<open>metadata\<close> is \<open>JUndefined\<close>, an omitted \<^verbatim>\<open>errorMessage\<close> is \<open>None\<close>.
\<close>

definition logUsageEvent ::
  "log_env \<Rightarrow> string \<Rightarrow> jsval \<Rightarrow> string option \<Rightarrow> world \<Rightarrow> unit promise \<times> world" where
  "logUsageEvent env eventType metadata_arg errorMessage w =
     (case logUsageEvent_try env eventType metadata_arg errorMessage w of
        (Inl e, w') \<Rightarrow>
          (Resolved (), w'\<lparr>console_errors := console_errors w' @ [(''Error logging usage:'', e)]\<rparr>)
      | (Inr u, w') \<Rightarrow> (Resolved (), w'))"

text \<open>The write reaches the table: the client is there, the storage is readable, the insert is accepted.\<close>

definition write_succeeds :: "log_env \<Rightarrow> world \<Rightarrow> bool" where
  "write_succeeds env w =
     (fst (getSupabaseClient (client env) (cachedClient w)) = Inr ()
      \<and> storage_error env = None
      \<and> insert_result env = InsertResolves None)"

section \<open>The analyzer page: state\<close>

text \<open>
  An uploaded file: its name, declared type and size, and the data URL that a
  \<^verbatim>\<open>FileReader\<close> produces from its bytes.
\<close>

record js_file =
  file_name :: string
  file_type :: string
  file_size :: nat
  data_url :: string

text \<open>
  The result object of \<^verbatim>\<open>validateImageFile\<close> (\<^verbatim>\<open>utils/fileValidation\<close>, imported by the
  page): the page reads its fields \<^verbatim>\<open>valid\<close> and \<^verbatim>\<open>error\<close> only.
\<close>

record validation =
  valid :: bool
  error :: "string option"

datatype variant = Default | Destructive

datatype toast = Toast string string variant

type_synonym usage_call = "string \<times> jsval \<times> string option"

text \<open>
  The \<^verbatim>\<open>data\<close> of a response of the analysis function: \<^verbatim>\<open>null\<close> (no payload), or an
  object whose \<^verbatim>\<open>analysis\<close> field is a string. The outcome of
  \<^verbatim>\<open>supabase.functions.invoke\<close>: the promise rejects, or it resolves to
  \<^verbatim>\<open>{ data, error }\<close> (\<open>None\<close> is a \<^verbatim>\<open>null\<close> error; an error object is truthy).
\<close>

datatype response_data = NullData | AnalysisData string

datatype invoke_outcome = InvokeRejects exn | InvokeResolves response_data "exn option"

text \<open>The argument of \<^verbatim>\<open>generatePDF\<close>; \<open>images\<close> are the pairs \<^verbatim>\<open>{ src, caption }\<close>.\<close>

record pdf_options =
  title :: string
  fileName :: string
  content :: string
  images :: "(string \<times> string) list"

text \<open>
  The state of the page. The first nine fields are the component's \<^verbatim>\<open>useState\<close> and
  \<^verbatim>\<open>useRef\<close> cells, under the source's names. The others are the environment the
  handlers act on:
  \<^item> \<open>timers\<close>: the live intervals, each with the closure variable \<^verbatim>\<open>i\<close> of its callback
    (\<^verbatim>\<open>setInterval\<close> hands out the identifiers \<open>next_timer\<close>, which start at 1, so an
    identifier stored in the ref is truthy);
  \<^item> \<open>toasts\<close>, \<open>console\<close>, \<open>uncaught\<close>: what was shown, written to the console
    and thrown out of a timer callback;
  \<^item> \<open>usage_calls\<close>: the calls of \<^verbatim>\<open>logUsageEvent\<close> (none of them is awaited);
  \<^item> \<open>pending_reads\<close>: the files a \<^verbatim>\<open>FileReader\<close> is reading;
  \<^item> \<open>awaiting_client\<close>: the invocations of \<^verbatim>\<open>handleAnalyze\<close> suspended at
    \<^verbatim>\<open>await getSupabaseClient()\<close>, each with the \<^verbatim>\<open>selectedImages\<close> its closure captured;
  \<^item> \<open>in_flight\<close>: the remote analysis requests in flight, each with its body's images;
  \<^item> \<open>success_timeouts\<close>: the pending 500 ms timeouts of the success path, each with
    the response data;
  \<^item> \<open>pdf_pending\<close>: the calls of \<^verbatim>\<open>generatePDF\<close> that have not settled.
\<close>

record state =
  selectedImages :: "string list"
  imageFiles :: "js_file list"
  treatmentPlan :: string
  isAnalyzing :: bool
  progress :: int
  isPdfGenerating :: bool
  showPdfDialog :: bool
  pdfSuccess :: bool
  progressIntervalRef :: "nat option"
  timers :: "nat \<rightharpoonup> rat"
  next_timer :: nat
  toasts :: "toast list"
  console :: "(string \<times> exn) list"
  uncaught :: "exn list"
  usage_calls :: "usage_call list"
  pending_reads :: "js_file list"
  awaiting_client :: "string list list"
  in_flight :: "string list list"
  success_timeouts :: "response_data list"
  pdf_pending :: "pdf_options list"

definition initial_state :: state where
  "initial_state =
     \<lparr>selectedImages = [], imageFiles = [], treatmentPlan = [], isAnalyzing = False,
      progress = 0, isPdfGenerating = False, showPdfDialog = False, pdfSuccess = False,
      progressIntervalRef = None, timers = Map.empty, next_timer = 1, toasts = [],
      console = [], uncaught = [], usage_calls = [], pending_reads = [],
      awaiting_client = [], in_flight = [], success_timeouts = [], pdf_pending = []\<rparr>"

definition toast :: "toast \<Rightarrow> state \<Rightarrow> state" where
  "toast t s = s\<lparr>toasts := toasts s @ [t]\<rparr>"

definition log_call :: "string \<Rightarrow> jsval \<Rightarrow> string option \<Rightarrow> state \<Rightarrow> state" where
  "log_call eventType m e s = s\<lparr>usage_calls := usage_calls s @ [(eventType, m, e)]\<rparr>"

definition remove_nth :: "nat \<Rightarrow> 'a list \<Rightarrow> 'a list" where
  "remove_nth k xs = take k xs @ drop (Suc k) xs"

section \<open>The progress timer\<close>

definition clearInterval :: "nat \<Rightarrow> state \<Rightarrow> state" where
  "clearInterval t s = s\<lparr>timers := (timers s)(t := None)\<rparr>"

text \<open>\<^verbatim>\<open>if (progressIntervalRef.current) clearInterval(progressIntervalRef.current)\<close>\<close>

definition clear_ref :: "state \<Rightarrow> state" where
  "clear_ref s = (case progressIntervalRef s of None \<Rightarrow> s | Some t \<Rightarrow> clearInterval t s)"

text \<open>\<^verbatim>\<open>let i = 0; progressIntervalRef.current = setInterval(..., 1200)\<close>\<close>

definition start_interval :: "state \<Rightarrow> state" where
  "start_interval s =
     s\<lparr>timers := (timers s)(next_timer s \<mapsto> 0),
       progressIntervalRef := Some (next_timer s),
       next_timer := Suc (next_timer s)\<rparr>"

text \<open>
  The callback's update of its counter \<^verbatim>\<open>i\<close>. The counter is a JavaScript number; every
  value it takes is a multiple of one half below 100, which a double holds exactly, so
  it is modelled by a rational. \<^verbatim>\<open>Math.round\<close> rounds a half up.
\<close>

definition advance :: "rat \<Rightarrow> rat" where
  "advance i = (if i < 60 then i + 2 else if i < 90 then i + 1 else if i < 99 then i + 1 / 2 else i)"

definition Math_round :: "rat \<Rightarrow> int" where
  "Math_round x = \<lfloor>x + 1 / 2\<rfloor>"

definition emitted :: "rat \<Rightarrow> int" where
  "emitted i = min (Math_round i) 99"

text \<open>One firing of the interval \<open>t\<close> (nothing happens when \<open>t\<close> is not live).\<close>

definition tick :: "nat \<Rightarrow> state \<Rightarrow> state" where
  "tick t s =
     (case timers s t of
        None \<Rightarrow> s
      | Some i \<Rightarrow>
          (let i' = advance i;
               s1 = s\<lparr>timers := (timers s)(t \<mapsto> i'), progress := emitted i'\<rparr>
           in if i' \<ge> 99 then clear_ref s1 else s1))"

text \<open>
  The values one interval passes to \<^verbatim>\<open>setProgress\<close> when it fires \<open>n\<close> times from the
  counter \<open>i\<close> (it stops itself once the counter has reached 99).
\<close>

fun timer_values :: "nat \<Rightarrow> rat \<Rightarrow> int list" where
  "timer_values 0 i = []"
| "timer_values (Suc n) i =
     emitted (advance i) # (if advance i \<ge> 99 then [] else timer_values n (advance i))"

section \<open>The handlers of the page\<close>

text \<open>
  Each handler is a function on the state. An async handler is one function for each
  stretch between two awaits that touches the state; the stretches are joined by the
  pending-work lists of the state. The texts of the toasts are those of
  \<^verbatim>\<open>src/pages/OrthodonticAnalyzer.tsx\<close>; the second copy of the page among the sources
  has the same handlers and words two of the toasts differently.
\<close>

text \<open>
  \<^verbatim>\<open>handleImageUpload\<close>, after \<^verbatim>\<open>validateImageFile\<close> has returned \<open>v\<close>. No file: nothing
  happens. An invalid file: a toast with \<^verbatim>\<open>validation.error || "Invalid image file"\<close>.
  A valid file: the reader starts, the file becomes the only one, the report is cleared
  and the upload is logged.
\<close>

definition handleImageUpload :: "js_file option \<Rightarrow> validation \<Rightarrow> state \<Rightarrow> state" where
  "handleImageUpload f v s =
     (case f of
        None \<Rightarrow> s
      | Some file \<Rightarrow>
          if \<not> valid v
          then toast (Toast ''Invalid file''
                        (case error v of
                           None \<Rightarrow> ''Invalid image file''
                         | Some msg \<Rightarrow> if msg = [] then ''Invalid image file'' else msg)
                        Destructive) s
          else log_call ''upload''
                 (JObj [(''fileType'', JStr (file_type file)),
                        (''fileSize'', JNum (int (file_size file)))]) None
                 (s\<lparr>pending_reads := pending_reads s @ [file],
                    imageFiles := [file],
                    treatmentPlan := []\<rparr>))"

text \<open>\<^verbatim>\<open>reader.onload\<close> of the \<open>k\<close>-th pending read.\<close>

definition reader_onload :: "nat \<Rightarrow> state \<Rightarrow> state" where
  "reader_onload k s =
     s\<lparr>selectedImages := [data_url (pending_reads s ! k)],
       pending_reads := remove_nth k (pending_reads s)\<rparr>"

text \<open>\<^verbatim>\<open>xs.filter((_, i) => i !== index)\<close>\<close>

definition filter_index_neq :: "nat \<Rightarrow> 'a list \<Rightarrow> 'a list" where
  "filter_index_neq index xs =
     map fst (filter (\<lambda>(x, i). i \<noteq> index) (zip xs [0..<length xs]))"

definition handleRemoveImage :: "nat \<Rightarrow> state \<Rightarrow> state" where
  "handleRemoveImage index s =
     s\<lparr>selectedImages := filter_index_neq index (selectedImages s),
       imageFiles := filter_index_neq index (imageFiles s)\<rparr>"

text \<open>
  \<^verbatim>\<open>handleAnalyze\<close> up to its first await. The only guard is on \<^verbatim>\<open>imageFiles\<close>. The
  closure keeps the \<^verbatim>\<open>selectedImages\<close> of the render it was created in for the body of
  the request.
\<close>

definition handleAnalyze :: "state \<Rightarrow> state" where
  "handleAnalyze s =
     (if length (imageFiles s) = 0
      then toast (Toast ''No image selected'' ''Please upload a panorex image first'' Destructive) s
      else
        (let s1 = s\<lparr>isAnalyzing := True, progress := 0, treatmentPlan := []\<rparr>;
             s2 = log_call ''analysis_start'' JUndefined None s1;
             s3 = clear_ref s2;
             s4 = start_interval s3
         in s4\<lparr>awaiting_client := awaiting_client s4 @ [selectedImages s]\<rparr>))"

text \<open>The \<^verbatim>\<open>catch\<close> block of \<^verbatim>\<open>handleAnalyze\<close>.\<close>

definition analyze_catch :: "exn \<Rightarrow> state \<Rightarrow> state" where
  "analyze_catch e s =
     (let s1 = s\<lparr>console := console s @ [(''Error analyzing image:'', e)]\<rparr>;
          s2 = clear_ref s1;
          s3 = s2\<lparr>progress := 0\<rparr>;
          s4 = log_call ''analysis_error'' JNull (Some (errorMessageOf e)) s3;
          s5 = toast (Toast ''Analysis failed''
                        ''There was an error analyzing your image. Please try again.''
                        Destructive) s4
      in s5\<lparr>isAnalyzing := False\<rparr>)"

text \<open>
  \<^verbatim>\<open>await getSupabaseClient()\<close> settles for the \<open>k\<close>-th suspended invocation: with
  \<open>Some e\<close> the client threw \<open>e\<close> and the catch block runs; otherwise the request is sent.
\<close>

definition client_settled :: "nat \<Rightarrow> exn option \<Rightarrow> state \<Rightarrow> state" where
  "client_settled k r s =
     (let body = awaiting_client s ! k;
          s1 = s\<lparr>awaiting_client := remove_nth k (awaiting_client s)\<rparr>
      in case r of
           Some e \<Rightarrow> analyze_catch e s1
         | None \<Rightarrow> s1\<lparr>in_flight := in_flight s1 @ [body]\<rparr>)"

text \<open>
  The \<open>k\<close>-th request settles. A rejection and a truthy \<^verbatim>\<open>error\<close> go to the catch block
  (\<^verbatim>\<open>if (error) throw error\<close>); otherwise the progress is set to 100 and the rest is
  deferred by 500 ms. The interval is not touched on this path.
\<close>

definition invoke_settled :: "nat \<Rightarrow> invoke_outcome \<Rightarrow> state \<Rightarrow> state" where
  "invoke_settled k outcome s =
     (let s1 = s\<lparr>in_flight := remove_nth k (in_flight s)\<rparr>
      in case outcome of
           InvokeRejects e \<Rightarrow> analyze_catch e s1
         | InvokeResolves d (Some e) \<Rightarrow> analyze_catch e s1
         | InvokeResolves d None \<Rightarrow>
             s1\<lparr>progress := 100, success_timeouts := success_timeouts s1 @ [d]\<rparr>)"

text \<open>
  The deferred callback of the success path. Its first statement evaluates
  \<^verbatim>\<open>data.analysis\<close>, which throws a \<^verbatim>\<open>TypeError\<close> out of the callback when \<^verbatim>\<open>data\<close> is
  \<^verbatim>\<open>null\<close>. (The nested 100 ms timeout only scrolls the report into view.)
\<close>

definition success_timeout :: "nat \<Rightarrow> state \<Rightarrow> state" where
  "success_timeout k s =
     (let d = success_timeouts s ! k;
          s1 = s\<lparr>success_timeouts := remove_nth k (success_timeouts s)\<rparr>
      in case d of
           NullData \<Rightarrow>
             s1\<lparr>uncaught := uncaught s1 @ [Error ''Cannot read properties of null (reading 'analysis')'']\<rparr>
         | AnalysisData a \<Rightarrow>
             (let s2 = s1\<lparr>treatmentPlan := a\<rparr>;
                  s3 = toast (Toast ''Analysis complete''
                                ''Your orthodontic treatment plan is ready'' Default) s2;
                  s4 = s3\<lparr>isAnalyzing := False\<rparr>
              in log_call ''analysis_success'' JUndefined None s4))"

text \<open>Decimal digits of a number, for the template literal of the captions.\<close>

function string_of_nat :: "nat \<Rightarrow> string" where
  "string_of_nat n =
     (if n < 10 then [''0123456789'' ! n]
      else string_of_nat (n div 10) @ [''0123456789'' ! (n mod 10)])"
  by pat_completeness auto
termination
  by (relation "measure id") auto

declare string_of_nat.simps [simp del]

definition pdfImages :: "string list \<Rightarrow> (string \<times> string) list" where
  "pdfImages imgs =
     map (\<lambda>(imgSrc, index).
            (imgSrc, if index = 0 then ''Pano'' else ''Photo '' @ string_of_nat (index + 1)))
         (zip imgs [0..<length imgs])"

text \<open>
  \<^verbatim>\<open>handleGeneratePDF\<close> up to the await of \<^verbatim>\<open>generatePDF\<close>: the guard on the report, and
  behind it the dialog, the log call and the call of the exporter.
\<close>

definition handleGeneratePDF :: "state \<Rightarrow> state" where
  "handleGeneratePDF s =
     (if treatmentPlan s = []
      then toast (Toast ''No treatment plan'' ''Please generate a treatment plan first''
                    Destructive) s
      else
        (let s1 = s\<lparr>isPdfGenerating := True, showPdfDialog := True, pdfSuccess := False\<rparr>;
             s2 = log_call ''pdf_export_start'' JUndefined None s1
         in s2\<lparr>pdf_pending := pdf_pending s2 @
                  [\<lparr>title = ''Orthodontic Treatment Plan'',
                    fileName = ''orthodontic-treatment-plan'',
                    content = treatmentPlan s,
                    images = pdfImages (selectedImages s)\<rparr>]\<rparr>))"

text \<open>
  The \<open>k\<close>-th call of \<^verbatim>\<open>generatePDF\<close> settles: it rejected with \<open>e\<close> (\<open>Inl e\<close>) or returned a
  boolean. \<^verbatim>\<open>false\<close> is turned into \<^verbatim>\<open>new Error("PDF generation failed")\<close>.
\<close>

definition pdf_catch :: "exn \<Rightarrow> state \<Rightarrow> state" where
  "pdf_catch e s =
     (let s1 = s\<lparr>console := console s @ [(''Error generating PDF:'', e)]\<rparr>;
          s2 = log_call ''pdf_export_error'' JNull (Some (errorMessageOf e)) s1;
          s3 = s2\<lparr>showPdfDialog := False\<rparr>
      in toast (Toast ''Export failed''
                  ''There was an error generating the PDF. Please try again.'' Destructive) s3)"

definition pdf_settled :: "nat \<Rightarrow> exn + bool \<Rightarrow> state \<Rightarrow> state" where
  "pdf_settled k r s =
     (let s1 = s\<lparr>pdf_pending := remove_nth k (pdf_pending s)\<rparr>;
          s2 = (case r of
                  Inr True \<Rightarrow> log_call ''pdf_export_success'' JUndefined None (s1\<lparr>pdfSuccess := True\<rparr>)
                | Inr False \<Rightarrow> pdf_catch (Error ''PDF generation failed'') s1
                | Inl e \<Rightarrow> pdf_catch e s1)
      in s2\<lparr>isPdfGenerating := False\<rparr>)"

definition handleClearAll :: "state \<Rightarrow> state" where
  "handleClearAll s =
     (let s1 = s\<lparr>selectedImages := [], imageFiles := [], treatmentPlan := [], progress := 0\<rparr>;
          s2 = clear_ref s1
      in toast (Toast ''Page cleared'' ''All images and results have been removed'' Default) s2)"

text \<open>The dialog's \<^verbatim>\<open>onOpenChange\<close> and its Close button.\<close>

definition close_pdf_dialog :: "state \<Rightarrow> state" where
  "close_pdf_dialog s = s\<lparr>showPdfDialog := False, pdfSuccess := False, isPdfGenerating := False\<rparr>"

definition onOpenChange :: "bool \<Rightarrow> state \<Rightarrow> state" where
  "onOpenChange is_open s = (if \<not> is_open \<and> pdfSuccess s then close_pdf_dialog s else s)"

section \<open>The view\<close>

text \<open>
  What the component renders from the state, as far as it depends on the state. A button
  is \<open>None\<close> when it is not rendered and carries its \<^verbatim>\<open>disabled\<close> attribute otherwise.
  \<open>sanitizeHtml\<close> is the sanitizer the page imports from \<^verbatim>\<open>utils/sanitizeHtml\<close>; it is a
  parameter of the view.
\<close>

datatype button = Button (disabled: bool)

datatype report_pane = Placeholder | InnerHTML string

definition clear_all_button :: "state \<Rightarrow> button option" where
  "clear_all_button s =
     (if length (selectedImages s) > 0 \<or> treatmentPlan s \<noteq> []
      then Some (Button (isAnalyzing s)) else None)"

definition analyze_button :: "state \<Rightarrow> button option" where
  "analyze_button s =
     (if length (selectedImages s) > 0
      then Some (Button (isAnalyzing s \<or> length (selectedImages s) = 0)) else None)"

definition export_button :: "state \<Rightarrow> button option" where
  "export_button s =
     (if treatmentPlan s \<noteq> [] then Some (Button (isPdfGenerating s)) else None)"

definition report_of :: "(string \<Rightarrow> string) \<Rightarrow> state \<Rightarrow> report_pane" where
  "report_of sanitizeHtml s =
     (if treatmentPlan s = [] then Placeholder else InnerHTML (sanitizeHtml (treatmentPlan s)))"

record view =
  clear_all :: "button option"
  select_panorex :: button
  image_src :: "string option"
  remove_image :: bool
  analyze :: "button option"
  analyze_label :: "string option"
  progress_bar :: "int option"
  export_pdf :: "button option"
  report :: report_pane
  dialog_open :: bool
  dialog_done :: bool

definition render :: "(string \<Rightarrow> string) \<Rightarrow> state \<Rightarrow> view" where
  "render sanitizeHtml s =
     \<lparr>clear_all = clear_all_button s,
      select_panorex = Button (length (selectedImages s) > 0),
      image_src = (case selectedImages s of [] \<Rightarrow> None | x # xs \<Rightarrow> Some x),
      remove_image = (length (selectedImages s) > 0),
      analyze = analyze_button s,
      analyze_label =
        (if length (selectedImages s) > 0
         then Some (if isAnalyzing s then ''Analyzing...'' else ''Generate Treatment Plan'')
         else None),
      progress_bar =
        (if length (selectedImages s) > 0 \<and> isAnalyzing s then Some (progress s) else None),
      export_pdf = export_button s,
      report = report_of sanitizeHtml s,
      dialog_open = showPdfDialog s,
      dialog_done = pdfSuccess s\<rparr>"

text \<open>The strings the view hands to \<^verbatim>\<open>dangerouslySetInnerHTML\<close>.\<close>

definition html_sinks :: "view \<Rightarrow> string list" where
  "html_sinks v = (case report v of Placeholder \<Rightarrow> [] | InnerHTML h \<Rightarrow> [h])"

section \<open>Events\<close>

text \<open>
  What can happen to the page: a user action on the view, or the completion of pending
  work. \<open>step\<close> runs the handler; \<open>enabled\<close> says when the event can occur: a click
  needs its button rendered and not disabled, a completion needs its pending work. The
  file input is always there (the disabled look of its label does not block it).
\<close>

datatype event =
    Upload "js_file option" validation
  | ReaderLoad nat
  | ClickRemove
  | ClickAnalyze
  | ClientSettled nat "exn option"
  | InvokeSettled nat invoke_outcome
  | SuccessTimeout nat
  | Tick nat
  | ClickClearAll
  | ClickExport
  | PdfSettled nat "exn + bool"
  | DialogOpenChange bool
  | ClickDialogClose

fun step :: "event \<Rightarrow> state \<Rightarrow> state" where
  "step (Upload f v) s = handleImageUpload f v s"
| "step (ReaderLoad k) s = reader_onload k s"
| "step ClickRemove s = handleRemoveImage 0 s"
| "step ClickAnalyze s = handleAnalyze s"
| "step (ClientSettled k r) s = client_settled k r s"
| "step (InvokeSettled k outcome) s = invoke_settled k outcome s"
| "step (SuccessTimeout k) s = success_timeout k s"
| "step (Tick t) s = tick t s"
| "step ClickClearAll s = handleClearAll s"
| "step ClickExport s = handleGeneratePDF s"
| "step (PdfSettled k r) s = pdf_settled k r s"
| "step (DialogOpenChange is_open) s = onOpenChange is_open s"
| "step ClickDialogClose s = close_pdf_dialog s"

fun enabled :: "state \<Rightarrow> event \<Rightarrow> bool" where
  "enabled s (Upload f v) = True"
| "enabled s (ReaderLoad k) = (k < length (pending_reads s))"
| "enabled s ClickRemove = (length (selectedImages s) > 0)"
| "enabled s ClickAnalyze = (analyze_button s = Some (Button False))"
| "enabled s (ClientSettled k r) = (k < length (awaiting_client s))"
| "enabled s (InvokeSettled k outcome) = (k < length (in_flight s))"
| "enabled s (SuccessTimeout k) = (k < length (success_timeouts s))"
| "enabled s (Tick t) = (timers s t \<noteq> None)"
| "enabled s ClickClearAll = (clear_all_button s = Some (Button False))"
| "enabled s ClickExport = (export_button s = Some (Button False))"
| "enabled s (PdfSettled k r) = (k < length (pdf_pending s))"
| "enabled s (DialogOpenChange is_open) = showPdfDialog s"
| "enabled s ClickDialogClose = (showPdfDialog s \<and> pdfSuccess s)"

text \<open>
  \<open>exec\<close> runs the handlers of a sequence of events; \<open>run\<close> does so only while every
  event can occur, and is \<open>None\<close> otherwise.
\<close>

fun exec :: "event list \<Rightarrow> state \<Rightarrow> state" where
  "exec [] s = s"
| "exec (e # es) s = exec es (step e s)"

fun run :: "event list \<Rightarrow> state \<Rightarrow> state option" where
  "run [] s = Some s"
| "run (e # es) s = (if enabled s e then run es (step e s) else None)"

text \<open>
  The values that firings of the interval \<open>t\<close> pass to \<^verbatim>\<open>setProgress\<close> while the events
  \<open>es\<close> happen from the state \<open>s\<close>, in order (a firing of an interval that is not live
  does nothing).
\<close>

fun tick_values :: "nat \<Rightarrow> event list \<Rightarrow> state \<Rightarrow> int list" where
  "tick_values t [] s = []"
| "tick_values t (e # es) s =
     (if e = Tick t \<and> timers s t \<noteq> None
      then progress (step e s) # tick_values t es (step e s)
      else tick_values t es (step e s))"

section \<open>A model of the sanitizer\<close>

text \<open>
  Modelled from the spec: \<^verbatim>\<open>utils/sanitizeHtml\<close> is imported by the page and is not among
  the sources. The spec (4.2, 8) asks that scripting and event-handler constructs are
  removed, that only an allow-list of structural and formatting tags and attributes is
  preserved, that malformed markup is not an error and that sanitizing is idempotent. The
  spec does not give the lists; the model fixes them (\<open>allowed_tags\<close>,
  \<open>allowed_attrs\<close>, and \<open>removed_elements\<close>, which go with their content). Names are
  compared without regard to case. The model only deletes characters:
  \<^item> an element of \<open>removed_elements\<close> goes with everything up to its closing tag (to the
    end of the text when it is not closed);
  \<^item> any other tag that is not allowed goes, its content stays;
  \<^item> in an allowed tag every attribute that is not allowed goes (so every \<^verbatim>\<open>on...\<close>
    handler and every URL-bearing attribute);
  \<^item> a \<^verbatim>\<open><\<close> that does not start a tag goes.
  The passes are repeated until nothing changes, which makes the result a fixed point.
  It serves as a concrete instance of the view's parameter.
\<close>

definition lower_char :: "char \<Rightarrow> char" where
  "lower_char c =
     (case map_of (zip ''ABCDEFGHIJKLMNOPQRSTUVWXYZ'' ''abcdefghijklmnopqrstuvwxyz'') c of
        Some l \<Rightarrow> l
      | None \<Rightarrow> c)"

definition name_char :: "char \<Rightarrow> bool" where
  "name_char c =
     (c \<in> set ''abcdefghijklmnopqrstuvwxyzABCDEFGHIJKLMNOPQRSTUVWXYZ0123456789'')"

definition space_char :: "char \<Rightarrow> bool" where
  "space_char c = (c \<in> set [CHR '' '', CHR 0x09, CHR 0x0A, CHR 0x0C, CHR 0x0D])"

definition quote_char :: "char \<Rightarrow> bool" where
  "quote_char c = (c = CHR 0x22 \<or> c = CHR 0x27)"

definition attr_name_char :: "char \<Rightarrow> bool" where
  "attr_name_char c = (\<not> space_char c \<and> \<not> quote_char c \<and> c \<notin> set ''=></'')"

definition tag_name :: "string \<Rightarrow> string" where
  "tag_name cs = map lower_char (takeWhile name_char cs)"

definition attr_name :: "string \<Rightarrow> string" where
  "attr_name cs = map lower_char (takeWhile attr_name_char cs)"

definition allowed_tags :: "string list" where
  "allowed_tags =
     [''h1'', ''h2'', ''h3'', ''h4'', ''h5'', ''h6'', ''p'', ''br'', ''hr'', ''div'', ''span'',
      ''ul'', ''ol'', ''li'', ''strong'', ''em'', ''b'', ''i'', ''u'', ''blockquote'',
      ''table'', ''thead'', ''tbody'', ''tr'', ''th'', ''td'']"

definition allowed_attrs :: "string list" where
  "allowed_attrs = [''class'', ''colspan'', ''rowspan'']"

definition removed_elements :: "string list" where
  "removed_elements = [''script'', ''style'', ''iframe'', ''object'', ''embed'']"

text \<open>
  Where the scan is: in text; in a tag that is removed (with the quote that is open, if
  any); in the content of a removed element of the given name; in the name of a kept tag;
  between the attributes of a kept tag; in an attribute that is kept or removed (with the
  open quote).
\<close>

datatype mode =
    In_text
  | Skip_tag "char option"
  | Skip_element string
  | Keep_name
  | Attributes
  | Attribute bool "char option"

text \<open>
  \<open>scan m cs\<close> looks at the first character of \<open>cs\<close> in mode \<open>m\<close> (with the rest as
  lookahead) and says whether the character is kept and in which mode the scan goes on.
\<close>

definition scan_attributes :: "string \<Rightarrow> bool \<times> mode" where
  "scan_attributes cs =
     (case cs of
        [] \<Rightarrow> (False, Attributes)
      | c # rest \<Rightarrow>
          if c = CHR ''>'' then (True, In_text)
          else if c = CHR ''/'' then (True, Attributes)
          else if space_char c then (attr_name rest \<in> set allowed_attrs, Attributes)
          else (attr_name cs \<in> set allowed_attrs,
                Attribute (attr_name cs \<in> set allowed_attrs) None))"

fun scan :: "mode \<Rightarrow> string \<Rightarrow> bool \<times> mode" where
  "scan m [] = (False, m)"
| "scan In_text (c # cs) =
     (if c = CHR ''<'' then
        (let closing = (case cs of [] \<Rightarrow> False | d # ds \<Rightarrow> d = CHR ''/'');
             name = tag_name (if closing then tl cs else cs)
         in if name = [] then (False, In_text)
            else if name \<in> set removed_elements \<and> \<not> closing then (False, Skip_element name)
            else if name \<in> set allowed_tags then (True, Keep_name)
            else (False, Skip_tag None))
      else (True, In_text))"
| "scan (Skip_tag (Some q)) (c # cs) = (False, if c = q then Skip_tag None else Skip_tag (Some q))"
| "scan (Skip_tag None) (c # cs) =
     (if c = CHR ''>'' then (False, In_text)
      else if quote_char c then (False, Skip_tag (Some c))
      else (False, Skip_tag None))"
| "scan (Skip_element name) (c # cs) =
     (if c = CHR ''<'' \<and> (case cs of [] \<Rightarrow> False | d # ds \<Rightarrow> d = CHR ''/'' \<and> tag_name ds = name)
      then (False, Skip_tag None) else (False, Skip_element name))"
| "scan Keep_name (c # cs) =
     (if c = CHR ''/'' \<or> name_char c then (True, Keep_name) else scan_attributes (c # cs))"
| "scan Attributes (c # cs) = scan_attributes (c # cs)"
| "scan (Attribute keep (Some q)) (c # cs) =
     (keep, if c = q then Attributes else Attribute keep (Some q))"
| "scan (Attribute keep None) (c # cs) =
     (if c = CHR ''>'' \<or> space_char c then scan_attributes (c # cs)
      else if quote_char c then (keep, Attribute keep (Some c))
      else (keep, Attribute keep None))"

text \<open>One pass over the text, and the passes repeated until nothing changes.\<close>

fun sanitize_pass :: "mode \<Rightarrow> string \<Rightarrow> string" where
  "sanitize_pass m [] = []"
| "sanitize_pass m (c # cs) =
     (if fst (scan m (c # cs)) then c # sanitize_pass (snd (scan m (c # cs))) cs
      else sanitize_pass (snd (scan m (c # cs))) cs)"

function sanitizeHtml_model :: "string \<Rightarrow> string" where
  "sanitizeHtml_model html =
     (let cleaned = sanitize_pass In_text html
      in if cleaned = html then html else sanitizeHtml_model cleaned)"
  by pat_completeness auto
termination
proof (relation "measure length")
  show "wf (measure length)" by simp
next
  fix html cleaned :: string
  assume c: "cleaned = sanitize_pass In_text html" and ne: "cleaned \<noteq> html"
  have shorter: "length (sanitize_pass m xs) \<le> length xs" for m xs
    by (induction xs arbitrary: m) (auto simp: le_SucI)
  have same: "length (sanitize_pass m xs) = length xs \<Longrightarrow> sanitize_pass m xs = xs" for m xs
  proof (induction xs arbitrary: m)
    case Nil
    then show ?case by simp
  next
    case (Cons x xs)
    show ?case
    proof (cases "fst (scan m (x # xs))")
      case True
      with Cons.prems have "length (sanitize_pass (snd (scan m (x # xs))) xs) = length xs"
        by simp
      from Cons.IH[OF this] True show ?thesis by simp
    next
      case False
      then have "sanitize_pass m (x # xs) = sanitize_pass (snd (scan m (x # xs))) xs"
        by simp
      moreover have "length (sanitize_pass (snd (scan m (x # xs))) xs) \<le> length xs"
        by (rule shorter)
      ultimately show ?thesis using Cons.prems by simp
    qed
  qed
  have "length cleaned \<le> length html" using c shorter by simp
  moreover have "length cleaned \<noteq> length html" using c ne same by metis
  ultimately show "(cleaned, html) \<in> measure length" by simp
qed

declare sanitizeHtml_model.simps [simp del]

section \<open>Invariants\<close>

text \<open>
  The analysis runs that have started and not finished: suspended at the client, in
  flight, or waiting for the deferred callback. \<open>run_inv\<close>: there is at most one, and only
  while \<^verbatim>\<open>isAnalyzing\<close> is set. \<open>images_inv\<close>: the page holds at most one image.
  \<open>timers_inv\<close>: only the interval the ref points to can be live.
\<close>

definition pending_runs :: "state \<Rightarrow> nat" where
  "pending_runs s = length (awaiting_client s) + length (in_flight s) + length (success_timeouts s)"

definition run_inv :: "state \<Rightarrow> bool" where
  "run_inv s = (pending_runs s \<le> 1 \<and> (pending_runs s = 0 \<or> isAnalyzing s))"

definition images_inv :: "state \<Rightarrow> bool" where
  "images_inv s = (length (selectedImages s) \<le> 1 \<and> length (imageFiles s) \<le> 1)"

definition timers_inv :: "state \<Rightarrow> bool" where
  "timers_inv s = (\<forall>t. timers s t \<noteq> None \<longrightarrow> progressIntervalRef s = Some t)"

text \<open>\<open>timers_fresh\<close>: the identifier that \<^verbatim>\<open>setInterval\<close> hands out next is not in use.\<close>

definition timers_fresh :: "state \<Rightarrow> bool" where
  "timers_fresh s = (\<forall>t. timers s t \<noteq> None \<longrightarrow> t < next_timer s)"

section \<open>Sample inputs\<close>

text \<open>A 500 KB PNG that the validator accepts, and a report with a script element.\<close>

definition sample_file :: js_file where
  "sample_file =
     \<lparr>file_name = ''pano.png'', file_type = ''image/png'', file_size = 512000,
      data_url = ''data:image/png;base64,AAAA''\<rparr>"

definition accepted :: validation where
  "accepted = \<lparr>valid = True, error = None\<rparr>"

definition script_report :: string where
  "script_report = ''<script>x</script><p>ok</p>''"

text \<open>
  A backend that is configured and accepts the row, and a tab that has logged nothing yet.
\<close>

definition ready_env :: log_env where
  "ready_env =
     \<lparr>client = \<lparr>VITE_SUPABASE_URL = Some ''https://backend.example'',
                 VITE_SUPABASE_PUBLISHABLE_KEY = Some ''key'', import_client = None\<rparr>,
      fresh_session_id = ''session_1_abc'', storage_error = None,
      insert_result = InsertResolves None\<rparr>"

definition empty_world :: world where
  "empty_world =
     \<lparr>cachedClient = False, sessionStorage = None, usage_logs = [], console_errors = []\<rparr>"

text \<open>
  Sequences of events from the initial page: an upload whose read completes; then a click
  on the analyze button whose client is ready, so that one request is in flight; then a
  response carrying the report \<open>a\<close> and the deferred callback of the success path.
\<close>

definition upload_trace :: "event list" where
  "upload_trace = [Upload (Some sample_file) accepted, ReaderLoad 0]"

definition start_trace :: "event list" where
  "start_trace = [Upload (Some sample_file) accepted, ReaderLoad 0, ClickAnalyze,
                  ClientSettled 0 None]"

definition success_trace :: "string \<Rightarrow> event list" where
  "success_trace a =
     [Upload (Some sample_file) accepted, ReaderLoad 0, ClickAnalyze, ClientSettled 0 None,
      InvokeSettled 0 (InvokeResolves (AnalysisData a) None), SuccessTimeout 0]"

text \<open>
  The same start, answered by a response without error and without data; and a start
  whose interval fires once before the report arrives and once after it was stored.
\<close>

definition null_response_trace :: "event list" where
  "null_response_trace =
     [Upload (Some sample_file) accepted, ReaderLoad 0, ClickAnalyze, ClientSettled 0 None,
      InvokeSettled 0 (InvokeResolves NullData None), SuccessTimeout 0]"

definition stale_tick_trace :: "event list" where
  "stale_tick_trace =
     [Upload (Some sample_file) accepted, ReaderLoad 0, ClickAnalyze, ClientSettled 0 None,
      Tick 1, InvokeSettled 0 (InvokeResolves (AnalysisData ''<p>ok</p>'') None),
      SuccessTimeout 0, Tick 1]"

text \<open>
  What happens around three firings of the interval after the start: the report arrives
  between the first and the second, and is stored between the second and the third.
\<close>

definition interleaved_trace :: "event list" where
  "interleaved_trace =
     [Tick 1, InvokeSettled 0 (InvokeResolves (AnalysisData ''<p>ok</p>'') None), Tick 1,
      SuccessTimeout 0, Tick 1]"

section \<open>Properties\<close>

lemmas handler_defs =
  handleImageUpload_def reader_onload_def handleRemoveImage_def handleAnalyze_def
  analyze_catch_def client_settled_def invoke_settled_def success_timeout_def
  handleGeneratePDF_def pdf_catch_def pdf_settled_def handleClearAll_def close_pdf_dialog_def
  onOpenChange_def tick_def clear_ref_def clearInterval_def start_interval_def toast_def
  log_call_def remove_nth_def

lemmas small_defs = clear_ref_def clearInterval_def toast_def log_call_def start_interval_def

lemmas view_defs = analyze_button_def clear_all_button_def export_button_def

lemmas sample_defs = initial_state_def sample_file_def accepted_def

lemmas eval_defs = sample_defs handler_defs view_defs Let_def advance_def emitted_def
  Math_round_def floor_eq_iff

subsection \<open>Invariants of the page\<close>

lemma length_remove_nth: "k < length xs \<Longrightarrow> length (remove_nth k xs) = length xs - 1"
  by (simp add: remove_nth_def)

lemma analyze_catch_runs:
  "pending_runs (analyze_catch e s) = pending_runs s" "isAnalyzing (analyze_catch e s) = False"
  by (simp_all add: analyze_catch_def Let_def pending_runs_def small_defs split: option.splits)

lemma handleAnalyze_runs:
  "pending_runs (handleAnalyze s) = (if length (imageFiles s) = 0 then pending_runs s else Suc (pending_runs s))"
  "isAnalyzing (handleAnalyze s) = (if length (imageFiles s) = 0 then isAnalyzing s else True)"
  by (simp_all add: handleAnalyze_def Let_def pending_runs_def small_defs split: option.splits)

lemma client_settled_runs:
  "k < length (awaiting_client s) \<Longrightarrow>
   pending_runs (client_settled k r s) = (case r of Some e \<Rightarrow> pending_runs s - 1 | None \<Rightarrow> pending_runs s)"
  "isAnalyzing (client_settled k r s) = (case r of Some e \<Rightarrow> False | None \<Rightarrow> isAnalyzing s)"
  by (cases r; simp add: client_settled_def Let_def analyze_catch_runs;
      simp add: pending_runs_def length_remove_nth; arith)+

lemma invoke_settled_pending:
  "k < length (in_flight s) \<Longrightarrow>
   pending_runs (invoke_settled k outcome s) =
     (case outcome of InvokeResolves d None \<Rightarrow> pending_runs s | _ \<Rightarrow> pending_runs s - 1)"
  by (simp add: invoke_settled_def Let_def analyze_catch_runs split: option.splits invoke_outcome.splits)
     (auto simp add: pending_runs_def length_remove_nth)

lemma invoke_settled_isAnalyzing:
  "isAnalyzing (invoke_settled k outcome s) =
     (case outcome of InvokeResolves d None \<Rightarrow> isAnalyzing s | _ \<Rightarrow> False)"
  by (simp add: invoke_settled_def Let_def analyze_catch_runs split: option.splits invoke_outcome.splits)

lemma success_timeout_runs:
  "k < length (success_timeouts s) \<Longrightarrow> pending_runs (success_timeout k s) = pending_runs s - 1"
  by (simp add: success_timeout_def Let_def pending_runs_def length_remove_nth small_defs
      split: response_data.splits)

lemma run_inv_step: "run_inv s \<Longrightarrow> enabled s e \<Longrightarrow> run_inv (step e s)"
proof (cases e)
  case (Upload f v)
  assume "run_inv s" then show ?thesis using Upload
    by (simp add: run_inv_def pending_runs_def handleImageUpload_def small_defs split: option.splits)
next
  case (ReaderLoad k)
  assume "run_inv s" then show ?thesis using ReaderLoad
    by (simp add: run_inv_def pending_runs_def reader_onload_def)
next
  case ClickRemove
  assume "run_inv s" then show ?thesis using ClickRemove
    by (simp add: run_inv_def pending_runs_def handleRemoveImage_def)
next
  case ClickAnalyze
  assume "run_inv s" "enabled s e" then show ?thesis using ClickAnalyze
    by (simp add: run_inv_def handleAnalyze_runs analyze_button_def split: if_splits)
next
  case (ClientSettled k r)
  assume "run_inv s" "enabled s e" then show ?thesis using ClientSettled
    by (cases r) (simp_all add: run_inv_def client_settled_runs)
next
  case (InvokeSettled k outcome)
  assume "run_inv s" "enabled s e" then show ?thesis using InvokeSettled
    by (simp add: run_inv_def invoke_settled_pending invoke_settled_isAnalyzing
        split: invoke_outcome.splits option.splits)
next
  case (SuccessTimeout k)
  assume "run_inv s" "enabled s e" then show ?thesis using SuccessTimeout
    by (simp add: run_inv_def success_timeout_runs)
next
  case (Tick t)
  assume "run_inv s" then show ?thesis using Tick
    by (simp add: run_inv_def pending_runs_def tick_def small_defs Let_def split: option.splits)
next
  case ClickClearAll
  assume "run_inv s" then show ?thesis using ClickClearAll
    by (simp add: run_inv_def pending_runs_def handleClearAll_def small_defs Let_def split: option.splits)
next
  case ClickExport
  assume "run_inv s" then show ?thesis using ClickExport
    by (simp add: run_inv_def pending_runs_def handleGeneratePDF_def small_defs Let_def)
next
  case (PdfSettled k r)
  assume "run_inv s" then show ?thesis using PdfSettled
    by (simp add: run_inv_def pending_runs_def pdf_settled_def pdf_catch_def small_defs Let_def
        split: sum.splits bool.splits)
next
  case (DialogOpenChange b)
  assume "run_inv s" then show ?thesis using DialogOpenChange
    by (simp add: run_inv_def pending_runs_def onOpenChange_def close_pdf_dialog_def)
next
  case ClickDialogClose
  assume "run_inv s" then show ?thesis using ClickDialogClose
    by (simp add: run_inv_def pending_runs_def close_pdf_dialog_def)
qed

lemma run_inv_run: "run_inv s \<Longrightarrow> run es s = Some s' \<Longrightarrow> run_inv s'"
proof (induction es arbitrary: s)
  case Nil
  then show ?case by simp
next
  case (Cons e es)
  from Cons.prems(2) have en: "enabled s e" and r: "run es (step e s) = Some s'"
    by (simp_all split: if_splits)
  from Cons.IH[OF run_inv_step[OF Cons.prems(1) en] r] show ?case .
qed

lemma length_filter_index_neq: "length (filter_index_neq i xs) \<le> length xs"
proof -
  have "length (filter_index_neq i xs) \<le> length (zip xs [0..<length xs])"
    unfolding filter_index_neq_def by (simp only: length_map length_filter_le)
  then show ?thesis by simp
qed

lemma images_inv_step: "images_inv s \<Longrightarrow> images_inv (step e s)"
proof (cases e)
  case ClickRemove
  assume "images_inv s"
  moreover have "length (filter_index_neq 0 (selectedImages s)) \<le> length (selectedImages s)"
    "length (filter_index_neq 0 (imageFiles s)) \<le> length (imageFiles s)"
    by (rule length_filter_index_neq)+
  ultimately show ?thesis using ClickRemove
    by (simp add: images_inv_def handleRemoveImage_def)
qed (simp_all add: images_inv_def handler_defs Let_def
      split: option.splits invoke_outcome.splits response_data.splits sum.splits bool.splits)

lemma images_inv_run: "images_inv s \<Longrightarrow> run es s = Some s' \<Longrightarrow> images_inv s'"
proof (induction es arbitrary: s)
  case Nil
  then show ?case by simp
next
  case (Cons e es)
  from Cons.prems(2) have r: "run es (step e s) = Some s'"
    by (simp split: if_splits)
  from Cons.IH[OF images_inv_step[OF Cons.prems(1)] r] show ?case .
qed

lemma timers_inv_step: "timers_inv s \<Longrightarrow> timers_inv (step e s)"
  by (cases e)
     (auto simp add: timers_inv_def handler_defs Let_def
       split: option.splits invoke_outcome.splits response_data.splits sum.splits bool.splits
              if_splits)

lemma timers_inv_run: "timers_inv s \<Longrightarrow> run es s = Some s' \<Longrightarrow> timers_inv s'"
proof (induction es arbitrary: s)
  case Nil
  then show ?case by simp
next
  case (Cons e es)
  from Cons.prems(2) have r: "run es (step e s) = Some s'"
    by (simp split: if_splits)
  from Cons.IH[OF timers_inv_step[OF Cons.prems(1)] r] show ?case .
qed

lemma initial_invs: "run_inv initial_state" "images_inv initial_state" "timers_inv initial_state"
  by (simp_all add: run_inv_def pending_runs_def images_inv_def timers_inv_def initial_state_def)

subsection \<open>The sanitizer model\<close>

lemmas sanitizer_defs = scan_attributes_def tag_name_def attr_name_def lower_char_def
  name_char_def space_char_def quote_char_def attr_name_char_def allowed_tags_def
  allowed_attrs_def removed_elements_def Let_def

lemma sanitizeHtml_model_clean:
  "sanitize_pass In_text html = html \<Longrightarrow> sanitizeHtml_model html = html"
  by (subst sanitizeHtml_model.simps) (simp add: Let_def)

lemma sanitizeHtml_model_dirty:
  "sanitize_pass In_text html \<noteq> html \<Longrightarrow>
   sanitizeHtml_model html = sanitizeHtml_model (sanitize_pass In_text html)"
  by (subst sanitizeHtml_model.simps) (simp add: Let_def)

lemma sanitizeHtml_model_fixed:
  "sanitize_pass In_text (sanitizeHtml_model html) = sanitizeHtml_model html"
proof (induction html rule: sanitizeHtml_model.induct)
  case (1 html)
  show ?case
  proof (cases "sanitize_pass In_text html = html")
    case True
    then show ?thesis by (simp add: sanitizeHtml_model_clean)
  next
    case False
    then show ?thesis using 1 by (simp add: sanitizeHtml_model_dirty)
  qed
qed

lemma sanitizeHtml_model_idempotent:
  "sanitizeHtml_model (sanitizeHtml_model html) = sanitizeHtml_model html"
  by (rule sanitizeHtml_model_clean) (rule sanitizeHtml_model_fixed)

lemma sanitizeHtml_model_two_passes:
  "sanitize_pass In_text html = cleaned \<Longrightarrow> sanitize_pass In_text cleaned = cleaned \<Longrightarrow>
   sanitizeHtml_model html = cleaned"
  by (cases "cleaned = html")
     (simp_all add: sanitizeHtml_model_clean sanitizeHtml_model_dirty)

lemma sanitize_script_report: "sanitizeHtml_model script_report = ''<p>ok</p>''"
  by (rule sanitizeHtml_model_two_passes) (simp_all add: script_report_def sanitizer_defs)

text \<open>
  The model on other inputs: names in capitals, an event handler next to an allowed
  attribute, a removed element next to allowed markup, a tag whose name only begins like
  a removed one, and markup that is already clean.
\<close>

lemma sanitize_capitals: "sanitizeHtml_model ''<SCRIPT src=a>x</ScRiPt ><P>ok</P>'' = ''<P>ok</P>''"
  by (rule sanitizeHtml_model_two_passes) (simp_all add: sanitizer_defs)

lemma sanitize_handler:
  "sanitizeHtml_model ''<p onclick=x() class=a>ok</p>'' = ''<p class=a>ok</p>''"
  by (rule sanitizeHtml_model_two_passes) (simp_all add: sanitizer_defs)

lemma sanitize_iframe:
  "sanitizeHtml_model ''<iframe src=x></iframe><h2>t</h2>'' = ''<h2>t</h2>''"
  by (rule sanitizeHtml_model_two_passes) (simp_all add: sanitizer_defs)

lemma sanitize_unknown_tag:
  "sanitizeHtml_model ''<scriptures>a</scriptures>b'' = ''ab''"
  by (rule sanitizeHtml_model_two_passes) (simp_all add: sanitizer_defs)

lemma sanitize_clean: "sanitizeHtml_model ''<p>ok</p>'' = ''<p>ok</p>''"
  by (rule sanitizeHtml_model_clean) (simp add: sanitizer_defs)

subsection \<open>The usage logger\<close>

lemma logUsageEvent_usage_logs:
  "usage_logs (snd (logUsageEvent env eventType m e w)) =
     (if write_succeeds env w
      then usage_logs w @
             [\<lparr>event_type = eventType,
               session_id = fst (getSessionId (fresh_session_id env) (sessionStorage w)),
               metadata = metadata_or_null m,
               error_message = errorMessage_or_null e\<rparr>]
      else usage_logs w)"
  by (auto simp add: logUsageEvent_def logUsageEvent_try_def write_succeeds_def Let_def
      split: prod.splits sum.splits option.splits insert_outcome.splits)

text \<open>
  C8. Whatever the event type, the metadata and the error message, and however the write
  fails, \<^verbatim>\<open>logUsageEvent\<close> does not throw to its caller: its promise resolves. The
  failure modes are shown one by one: a client that cannot be constructed (no backend
  URL, nothing cached) and an insert that rejects both end in the catch block, which
  writes to the console and returns; an insert that resolves with an error object is not
  even noticed. In none of them the table changes.
\<close>

theorem logUsageEvent_never_rejects:
  "fst (logUsageEvent env eventType m e w) = Resolved ()
   \<and> logUsageEvent (env\<lparr>client := (client env)\<lparr>VITE_SUPABASE_URL := None\<rparr>\<rparr>) eventType m e
        (w\<lparr>cachedClient := False\<rparr>)
       = (Resolved (),
          w\<lparr>cachedClient := False,
            console_errors := console_errors w @
              [(''Error logging usage:'',
                Error ''Backend is not fully configured yet. Please try again in a moment.'')]\<rparr>)
   \<and> logUsageEvent (env\<lparr>storage_error := None, insert_result := InsertRejects x\<rparr>) eventType m e
        (w\<lparr>cachedClient := True\<rparr>)
       = (Resolved (),
          w\<lparr>cachedClient := True,
            sessionStorage := snd (getSessionId (fresh_session_id env) (sessionStorage w)),
            console_errors := console_errors w @ [(''Error logging usage:'', x)]\<rparr>)
   \<and> logUsageEvent (env\<lparr>storage_error := None, insert_result := InsertResolves (Some x)\<rparr>) eventType m e
        (w\<lparr>cachedClient := True\<rparr>)
       = (Resolved (),
          w\<lparr>cachedClient := True,
            sessionStorage := snd (getSessionId (fresh_session_id env) (sessionStorage w))\<rparr>)"
  by (simp add: logUsageEvent_def logUsageEvent_try_def getSupabaseClient_def falsy_string_def
      Let_def split: prod.splits sum.splits option.splits insert_outcome.splits)

text \<open>
  C10. The row handed to the insert carries \<^verbatim>\<open>null\<close> for a falsy metadata (an omitted
  one is \<open>JUndefined\<close>) and for a missing or empty error message. The table gains exactly
  that row when the write succeeds and nothing otherwise, so a table without empty error
  messages stays one.
\<close>

theorem logUsageEvent_nulls_falsy:
  "usage_logs (snd (logUsageEvent env eventType m e w)) =
     (if write_succeeds env w
      then usage_logs w @
             [\<lparr>event_type = eventType,
               session_id = fst (getSessionId (fresh_session_id env) (sessionStorage w)),
               metadata = (if truthy m then m else JNull),
               error_message =
                 (case e of None \<Rightarrow> None | Some msg \<Rightarrow> if msg = [] then None else Some msg)\<rparr>]
      else usage_logs w)
   \<and> (list_all (\<lambda>r. error_message r \<noteq> Some []) (usage_logs w) \<longrightarrow>
        list_all (\<lambda>r. error_message r \<noteq> Some [])
          (usage_logs (snd (logUsageEvent env eventType m e w))))"
  by (simp add: logUsageEvent_usage_logs metadata_or_null_def errorMessage_or_null_def
      falsy_string_def split: option.splits)

theorem logUsageEvent_nulls_falsy_witness:
  "write_succeeds ready_env empty_world
   \<and> list_all (\<lambda>r. error_message r \<noteq> Some []) (usage_logs empty_world)
   \<and> usage_logs (snd (logUsageEvent ready_env ''analysis_error'' JUndefined (Some []) empty_world))
       = [\<lparr>event_type = ''analysis_error'', session_id = ''session_1_abc'',
            metadata = JNull, error_message = None\<rparr>]
   \<and> list_all (\<lambda>r. error_message r \<noteq> Some [])
        (usage_logs (snd (logUsageEvent ready_env ''analysis_error'' JUndefined (Some []) empty_world)))"
proof -
  have ws: "write_succeeds ready_env empty_world"
    by (simp add: write_succeeds_def ready_env_def empty_world_def getSupabaseClient_def
        falsy_string_def)
  have inv: "list_all (\<lambda>r. error_message r \<noteq> Some []) (usage_logs empty_world)"
    by (simp add: empty_world_def)
  show ?thesis
    using logUsageEvent_nulls_falsy[of ready_env "''analysis_error''" JUndefined "Some []" empty_world]
      ws inv
    by (simp add: ready_env_def empty_world_def getSessionId_def)
qed

subsection \<open>Export\<close>

lemma export_with_report_calls_generatePDF:
  "treatmentPlan s \<noteq> [] \<Longrightarrow>
     pdf_pending (handleGeneratePDF s) =
       pdf_pending s @
         [\<lparr>title = ''Orthodontic Treatment Plan'', fileName = ''orthodontic-treatment-plan'',
           content = treatmentPlan s, images = pdfImages (selectedImages s)\<rparr>]"
  by (simp add: handleGeneratePDF_def log_call_def Let_def)

text \<open>
  C7. An export requested while the stored report is empty is turned down before the
  exporter is called: the handler only adds the toast "No treatment plan", so no call of
  \<^verbatim>\<open>generatePDF\<close> is pending afterwards, nothing is logged and every other part of the
  state is as before. (In that state the view does not render the export button either.)
\<close>

theorem export_without_report_rejected:
  "treatmentPlan s = [] \<Longrightarrow>
     handleGeneratePDF s =
       s\<lparr>toasts := toasts s @
            [Toast ''No treatment plan'' ''Please generate a treatment plan first'' Destructive]\<rparr>
     \<and> pdf_pending (handleGeneratePDF s) = pdf_pending s
     \<and> usage_calls (handleGeneratePDF s) = usage_calls s
     \<and> export_button s = None"
  by (simp add: handleGeneratePDF_def toast_def export_button_def)

theorem export_without_report_rejected_witness:
  "treatmentPlan initial_state = []
   \<and> pdf_pending (handleGeneratePDF initial_state) = []
   \<and> toasts (handleGeneratePDF initial_state) =
        [Toast ''No treatment plan'' ''Please generate a treatment plan first'' Destructive]"
  using export_without_report_rejected[of initial_state]
  by (simp add: initial_state_def)

subsection \<open>A successful analysis from the initial page\<close>

lemma success_trace_state:
  "run (success_trace a) initial_state = Some (exec (success_trace a) initial_state)"
  "treatmentPlan (exec (success_trace a) initial_state) = a"
  "isAnalyzing (exec (success_trace a) initial_state) = False"
  "progress (exec (success_trace a) initial_state) = 100"
  "selectedImages (exec (success_trace a) initial_state) = [''data:image/png;base64,AAAA'']"
  "imageFiles (exec (success_trace a) initial_state) = [sample_file]"
  "timers (exec (success_trace a) initial_state) 1 = Some 0"
  by (simp_all add: success_trace_def sample_defs handler_defs view_defs Let_def)

lemma start_trace_state:
  "run start_trace initial_state = Some (exec start_trace initial_state)"
  "timers (exec start_trace initial_state) (Suc 0) = Some 0"
  "progress (exec start_trace initial_state) = 0"
  "isAnalyzing (exec start_trace initial_state) = True"
  "in_flight (exec start_trace initial_state) = [[''data:image/png;base64,AAAA'']]"
  "awaiting_client (exec start_trace initial_state) = []"
  "imageFiles (exec start_trace initial_state) = [sample_file]"
  "progressIntervalRef (exec start_trace initial_state) = Some 1"
  by (simp_all add: start_trace_def sample_defs handler_defs view_defs Let_def)

subsection \<open>Rendering the report\<close>

lemma html_sinks_render:
  "html_sinks (render sanitizeHtml s) =
     (if treatmentPlan s = [] then [] else [sanitizeHtml (treatmentPlan s)])"
  by (simp add: render_def report_of_def html_sinks_def)

text \<open>
  C1. In every state of the page (reachable or not) whose report is not empty, the view
  renders the report pane from \<^verbatim>\<open>sanitizeHtml(treatmentPlan)\<close>, whatever the sanitizer is,
  and that string is the only one the view hands to \<^verbatim>\<open>dangerouslySetInnerHTML\<close>: the
  stored report never reaches the document tree unsanitized.
\<close>

theorem report_rendered_sanitized:
  "treatmentPlan s \<noteq> [] \<Longrightarrow>
     report (render sanitizeHtml s) = InnerHTML (sanitizeHtml (treatmentPlan s))
     \<and> html_sinks (render sanitizeHtml s) = [sanitizeHtml (treatmentPlan s)]"
  by (simp add: render_def report_of_def html_sinks_def)

theorem report_rendered_sanitized_witness:
  "treatmentPlan (exec (success_trace script_report) initial_state) \<noteq> []
   \<and> run (success_trace script_report) initial_state
       = Some (exec (success_trace script_report) initial_state)
   \<and> report (render sanitizeHtml_model (exec (success_trace script_report) initial_state))
       = InnerHTML ''<p>ok</p>''
   \<and> html_sinks (render sanitizeHtml_model (exec (success_trace script_report) initial_state))
       = [''<p>ok</p>'']"
proof -
  have ne: "treatmentPlan (exec (success_trace script_report) initial_state) \<noteq> []"
    by (simp add: success_trace_state script_report_def)
  from report_rendered_sanitized[OF ne, of sanitizeHtml_model] ne show ?thesis
    by (simp add: success_trace_state sanitize_script_report)
qed

subsection \<open>Removing the image\<close>

lemma filter_index_neq_short:
  "length xs \<le> 1 \<Longrightarrow> filter_index_neq 0 xs = []"
  by (cases xs) (simp_all add: filter_index_neq_def)

text \<open>
  C9. \<^verbatim>\<open>handleRemoveImage\<close> changes the two image lists and nothing else: the report, the
  progress value and the analyzing flag are as before. The page never holds more than one
  image (\<open>images_inv\<close>, which every sequence of events from the initial page keeps), so
  removing the displayed image, index 0, empties both lists; a report that was there
  remains, without an image.
\<close>

theorem remove_image_keeps_report:
  "handleRemoveImage index s =
     s\<lparr>selectedImages := selectedImages (handleRemoveImage index s),
       imageFiles := imageFiles (handleRemoveImage index s)\<rparr>
   \<and> treatmentPlan (handleRemoveImage index s) = treatmentPlan s
   \<and> progress (handleRemoveImage index s) = progress s
   \<and> isAnalyzing (handleRemoveImage index s) = isAnalyzing s
   \<and> (images_inv s \<longrightarrow>
        selectedImages (handleRemoveImage 0 s) = [] \<and> imageFiles (handleRemoveImage 0 s) = [])
   \<and> (run es initial_state = Some s \<longrightarrow> images_inv s)"
  using images_inv_run[OF initial_invs(2), of es s]
  by (simp add: handleRemoveImage_def filter_index_neq_short images_inv_def)

theorem remove_image_keeps_report_witness:
  "run (success_trace ''<p>ok</p>'') initial_state
     = Some (exec (success_trace ''<p>ok</p>'') initial_state)
   \<and> images_inv (exec (success_trace ''<p>ok</p>'') initial_state)
   \<and> run (success_trace ''<p>ok</p>'' @ [ClickRemove]) initial_state
       = Some (handleRemoveImage 0 (exec (success_trace ''<p>ok</p>'') initial_state))
   \<and> selectedImages (handleRemoveImage 0 (exec (success_trace ''<p>ok</p>'') initial_state)) = []
   \<and> imageFiles (handleRemoveImage 0 (exec (success_trace ''<p>ok</p>'') initial_state)) = []
   \<and> treatmentPlan (handleRemoveImage 0 (exec (success_trace ''<p>ok</p>'') initial_state)) = ''<p>ok</p>''
   \<and> progress (handleRemoveImage 0 (exec (success_trace ''<p>ok</p>'') initial_state)) = 100"
proof -
  have r: "run (success_trace ''<p>ok</p>'' @ [ClickRemove]) initial_state
       = Some (handleRemoveImage 0 (exec (success_trace ''<p>ok</p>'') initial_state))"
    by (simp add: success_trace_def sample_defs handler_defs view_defs Let_def)
  from remove_image_keeps_report[of 0 "exec (success_trace ''<p>ok</p>'') initial_state"
      "success_trace ''<p>ok</p>''"] r
  show ?thesis
    by (simp add: success_trace_state)
qed

subsection \<open>The progress timer\<close>

lemma emitted_le_99: "emitted i \<le> 99"
  by (simp add: emitted_def)

lemma advance_ge: "i \<le> advance i"
  by (simp add: advance_def)

lemma emitted_mono: "i \<le> j \<Longrightarrow> emitted i \<le> emitted j"
  unfolding emitted_def Math_round_def
  by (meson add_right_mono floor_mono min.mono order_refl)

lemma timer_values_lower: "v \<in> set (timer_values n i) \<Longrightarrow> emitted i \<le> v"
proof (induction n arbitrary: i)
  case 0
  then show ?case by simp
next
  case (Suc n)
  have step: "emitted i \<le> emitted (advance i)"
    by (rule emitted_mono) (rule advance_ge)
  from Suc.prems have "v = emitted (advance i) \<or> v \<in> set (timer_values n (advance i))"
    by (auto split: if_splits)
  then show ?case
  proof
    assume "v = emitted (advance i)"
    with step show ?thesis by simp
  next
    assume "v \<in> set (timer_values n (advance i))"
    from Suc.IH[OF this] step show ?thesis by simp
  qed
qed

lemma timer_values_sorted: "sorted (timer_values n i)"
  by (induction n arbitrary: i) (auto dest: timer_values_lower)

lemma timer_values_le_99: "list_all (\<lambda>v. v \<le> 99) (timer_values n i)"
  by (induction n arbitrary: i) (simp_all add: emitted_le_99)

lemma tick_progress:
  "timers s t = Some i \<Longrightarrow> progress (tick t s) = emitted (advance i)"
  by (simp add: tick_def Let_def small_defs split: option.splits)

lemma progress_100_only_on_success:
  "progress (step e s) = 100 \<Longrightarrow> progress s \<noteq> 100 \<Longrightarrow>
   \<exists>k d. e = InvokeSettled k (InvokeResolves d None)"
proof (cases e)
  case (Tick t)
  assume a: "progress (step e s) = 100" "progress s \<noteq> 100"
  show ?thesis
  proof (cases "timers s t")
    case None
    with a Tick show ?thesis by (simp add: tick_def)
  next
    case (Some i)
    from tick_progress[OF Some] emitted_le_99[of "advance i"] a Tick show ?thesis by simp
  qed
qed (auto simp add: handler_defs Let_def
      split: option.splits invoke_outcome.splits response_data.splits sum.splits bool.splits if_splits)

text \<open>
  A whole run of the interval from 0: the even numbers up to 60, every number up to 90,
  then every number up to 99 twice (a half step rounds up); 78 firings, after which the
  interval has stopped itself.
\<close>

lemma timer_values_full_run:
  "timer_values 78 0 =
     map (\<lambda>k. 2 * int k) [1..<31] @ map int [61..<91]
     @ concat (map (\<lambda>k. [int k, int k]) [91..<100])"
  by (simp add: numeral_eq_Suc advance_def emitted_def Math_round_def floor_eq_iff upt_rec)

text \<open>
  The interval in the state: what a firing stores and sets, which events leave a live
  counter alone, and that an interval that was cleared stays so.
\<close>

lemma tick_live:
  "timers s t = Some i \<Longrightarrow> progressIntervalRef s = Some t \<Longrightarrow>
   timers (tick t s) t = (if 99 \<le> advance i then None else Some (advance i))
   \<and> progress (tick t s) = emitted (advance i)
   \<and> progressIntervalRef (tick t s) = Some t
   \<and> next_timer (tick t s) = next_timer s"
  by (simp add: tick_def Let_def small_defs)

lemma next_timer_step: "next_timer s \<le> next_timer (step e s)"
  by (cases e)
     (simp_all add: handler_defs Let_def
       split: option.splits invoke_outcome.splits response_data.splits sum.splits bool.splits)

lemma dead_step:
  "timers s t = None \<Longrightarrow> t < next_timer s \<Longrightarrow> timers (step e s) t = None"
  by (cases e)
     (auto simp add: handler_defs Let_def
       split: option.splits invoke_outcome.splits response_data.splits sum.splits bool.splits
              if_splits)

lemma dead_values:
  "timers s t = None \<Longrightarrow> t < next_timer s \<Longrightarrow> tick_values t es s = []"
proof (induction es arbitrary: s)
  case Nil
  then show ?case by simp
next
  case (Cons e es)
  have "timers (step e s) t = None" by (rule dead_step[OF Cons.prems])
  moreover have "t < next_timer (step e s)"
    using Cons.prems(2) next_timer_step[of s e] by simp
  ultimately have "tick_values t es (step e s) = []" by (rule Cons.IH)
  with Cons.prems(1) show ?case by simp
qed

lemma timers_fresh_step: "timers_fresh s \<Longrightarrow> timers_fresh (step e s)"
  by (cases e)
     (auto simp add: timers_fresh_def handler_defs Let_def less_Suc_eq
       split: option.splits invoke_outcome.splits response_data.splits sum.splits bool.splits
              if_splits)

lemma live_other_step:
  "timers_inv s \<Longrightarrow> timers_fresh s \<Longrightarrow> timers s t = Some i \<Longrightarrow> e \<noteq> Tick t \<Longrightarrow>
   timers (step e s) t = Some i \<or> timers (step e s) t = None"
  by (cases e)
     (auto simp add: timers_inv_def timers_fresh_def handler_defs Let_def
       split: option.splits invoke_outcome.splits response_data.splits sum.splits bool.splits
              if_splits)

lemma timers_fresh_run: "timers_fresh s \<Longrightarrow> run es s = Some s' \<Longrightarrow> timers_fresh s'"
proof (induction es arbitrary: s)
  case Nil
  then show ?case by simp
next
  case (Cons e es)
  from Cons.prems(2) have r: "run es (step e s) = Some s'"
    by (simp split: if_splits)
  from Cons.IH[OF timers_fresh_step[OF Cons.prems(1)] r] show ?case .
qed

lemma timers_fresh_initial: "timers_fresh initial_state"
  by (simp add: timers_fresh_def initial_state_def)

lemma tick_values_interleaved:
  "timers_inv s \<Longrightarrow> timers_fresh s \<Longrightarrow> timers s t = Some i \<Longrightarrow>
   \<exists>m\<le>length es. tick_values t es s = timer_values m i"
proof (induction es arbitrary: s i)
  case Nil
  then show ?case by simp
next
  case (Cons e es)
  have inv': "timers_inv (step e s)" by (rule timers_inv_step[OF Cons.prems(1)])
  have fresh': "timers_fresh (step e s)" by (rule timers_fresh_step[OF Cons.prems(2)])
  from Cons.prems(2,3) have lt: "t < next_timer s" by (simp add: timers_fresh_def)
  with next_timer_step[of s e] have lt': "t < next_timer (step e s)" by simp
  show ?case
  proof (cases "e = Tick t")
    case True
    from Cons.prems(1,3) have ref: "progressIntervalRef s = Some t"
      by (simp add: timers_inv_def)
    note live = tick_live[OF Cons.prems(3) ref]
    show ?thesis
    proof (cases "99 \<le> advance i")
      case stop: True
      with live True have "timers (step e s) t = None" by simp
      from dead_values[OF this lt'] have "tick_values t es (step e s) = []" .
      with True Cons.prems(3) live stop
      have "tick_values t (e # es) s = timer_values (Suc 0) i" by simp
      then show ?thesis by (intro exI[of _ "Suc 0"]) simp
    next
      case go: False
      with live True have "timers (step e s) t = Some (advance i)" by simp
      from Cons.IH[OF inv' fresh' this]
      obtain m where m: "m \<le> length es" "tick_values t es (step e s) = timer_values m (advance i)"
        by blast
      with True Cons.prems(3) live go
      have "tick_values t (e # es) s = timer_values (Suc m) i" by simp
      with m(1) show ?thesis by (intro exI[of _ "Suc m"]) simp
    qed
  next
    case False
    then have eq: "tick_values t (e # es) s = tick_values t es (step e s)" by simp
    from live_other_step[OF Cons.prems False]
    show ?thesis
    proof
      assume "timers (step e s) t = Some i"
      from Cons.IH[OF inv' fresh' this]
      obtain m where "m \<le> length es" "tick_values t es (step e s) = timer_values m i"
        by blast
      with eq show ?thesis by (intro exI[of _ m]) simp
    next
      assume "timers (step e s) t = None"
      from dead_values[OF this lt'] eq show ?thesis by (intro exI[of _ 0]) simp
    qed
  qed
qed

lemma dead_firings: "timers s t = None \<Longrightarrow> tick_values t (replicate n (Tick t)) s = []"
  by (induction n) (simp_all add: tick_def)

lemma tick_values_consecutive:
  "timers_inv s \<Longrightarrow> timers s t = Some i \<Longrightarrow>
   tick_values t (replicate n (Tick t)) s = timer_values n i"
proof (induction n arbitrary: s i)
  case 0
  then show ?case by simp
next
  case (Suc n)
  from Suc.prems have ref: "progressIntervalRef s = Some t"
    by (simp add: timers_inv_def)
  note live = tick_live[OF Suc.prems(2) ref]
  have inv': "timers_inv (tick t s)"
    using timers_inv_step[OF Suc.prems(1), of "Tick t"] by simp
  show ?case
  proof (cases "99 \<le> advance i")
    case True
    with live have "timers (tick t s) t = None" by simp
    from dead_firings[OF this] True live Suc.prems(2) show ?thesis by simp
  next
    case False
    with live have "timers (tick t s) t = Some (advance i)" by simp
    from Suc.IH[OF inv' this] False live Suc.prems(2) show ?thesis by simp
  qed
qed

lemma handleAnalyze_starts_at_0:
  "imageFiles s \<noteq> [] \<Longrightarrow>
   timers (handleAnalyze s) (next_timer s) = Some 0
   \<and> progressIntervalRef (handleAnalyze s) = Some (next_timer s)
   \<and> progress (handleAnalyze s) = 0"
  by (simp add: handleAnalyze_def small_defs Let_def split: option.splits)

text \<open>
  C4, as stated, fails in its last part: the progress is set to 100 on every response
  that carries no error object, also when no success is confirmed. From the initial page,
  a response with neither error nor data sets the progress to 100; no report is stored,
  the page stays analyzing and no \<^verbatim>\<open>analysis_success\<close> is logged.
\<close>

theorem progress_100_without_report_counterexample:
  "run null_response_trace initial_state = Some (exec null_response_trace initial_state)
   \<and> null_response_trace = start_trace @ [InvokeSettled 0 (InvokeResolves NullData None), SuccessTimeout 0]
   \<and> progress (exec start_trace initial_state) = 0
   \<and> progress (step (InvokeSettled 0 (InvokeResolves NullData None))
                  (exec start_trace initial_state)) = 100
   \<and> progress (exec null_response_trace initial_state) = 100
   \<and> treatmentPlan (exec null_response_trace initial_state) = []
   \<and> isAnalyzing (exec null_response_trace initial_state)
   \<and> (''analysis_success'', JUndefined, None)
        \<notin> set (usage_calls (exec null_response_trace initial_state))"
proof -
  have a: "run null_response_trace initial_state = Some (exec null_response_trace initial_state)"
    "progress (exec null_response_trace initial_state) = 100"
    "treatmentPlan (exec null_response_trace initial_state) = []"
    "isAnalyzing (exec null_response_trace initial_state)"
    "(''analysis_success'', JUndefined, None)
        \<notin> set (usage_calls (exec null_response_trace initial_state))"
    by (simp_all add: null_response_trace_def eval_defs)
  have b: "null_response_trace
      = start_trace @ [InvokeSettled 0 (InvokeResolves NullData None), SuccessTimeout 0]"
    by (simp add: null_response_trace_def start_trace_def)
  have c: "progress (step (InvokeSettled 0 (InvokeResolves NullData None))
                  (exec start_trace initial_state)) = 100"
    by (simp add: invoke_settled_def Let_def)
  from a b c show ?thesis by (simp add: start_trace_state)
qed

text \<open>
  C4, amended. Take a state in which the interval \<open>t\<close> is live with counter \<open>i\<close> and the
  two invariants of the intervals hold, as in every reachable state. Whatever events
  \<open>es\<close> happen next, the values that firings of \<open>t\<close> pass to \<^verbatim>\<open>setProgress\<close> are the first
  values of the curve \<open>timer_values\<close> from \<open>i\<close>; \<open>n\<close> firings in a row give exactly
  \<open>timer_values n i\<close>; so the values never decrease and never exceed 99. A firing stores
  the advanced counter (or stops the interval once it has reached 99) and sets the
  progress to its rounded value. \<^verbatim>\<open>handleAnalyze\<close> starts its interval at 0. The counter
  grows by 2 below 60, by 1 from 60 to below 90, by one half from 90 to below 99, and
  stays at 99. The only event that turns a progress other than 100 into 100 is a response
  of the analysis request without an error object, and every such response does,
  whatever its data: the timer never does.
\<close>

theorem progress_timer_curve:
  "(timers_inv s \<and> timers_fresh s \<and> timers s t = Some i \<longrightarrow>
      (\<exists>m\<le>length es. tick_values t es s = timer_values m i)
      \<and> tick_values t (replicate n (Tick t)) s = timer_values n i
      \<and> sorted (tick_values t es s)
      \<and> list_all (\<lambda>v. v \<le> 99) (tick_values t es s)
      \<and> timers (tick t s) t = (if 99 \<le> advance i then None else Some (advance i))
      \<and> progress (tick t s) = emitted (advance i)
      \<and> progress (tick t s) \<le> 99)
   \<and> (run es0 initial_state = Some s \<longrightarrow> timers_inv s \<and> timers_fresh s)
   \<and> (imageFiles s \<noteq> [] \<longrightarrow> timers (handleAnalyze s) (next_timer s) = Some 0)
   \<and> sorted (timer_values n i)
   \<and> list_all (\<lambda>v. v \<le> 99) (timer_values n i)
   \<and> (i < 60 \<longrightarrow> advance i = i + 2)
   \<and> (60 \<le> i \<and> i < 90 \<longrightarrow> advance i = i + 1)
   \<and> (90 \<le> i \<and> i < 99 \<longrightarrow> advance i = i + 1 / 2)
   \<and> (99 \<le> i \<longrightarrow> advance i = i)
   \<and> (progress (step e s) = 100 \<and> progress s \<noteq> 100 \<longrightarrow>
        (\<exists>k d. e = InvokeSettled k (InvokeResolves d None)))
   \<and> progress (invoke_settled k (InvokeResolves d None) s) = 100"
proof -
  have live: "(\<exists>m\<le>length es. tick_values t es s = timer_values m i)
      \<and> tick_values t (replicate n (Tick t)) s = timer_values n i
      \<and> sorted (tick_values t es s)
      \<and> list_all (\<lambda>v. v \<le> 99) (tick_values t es s)
      \<and> timers (tick t s) t = (if 99 \<le> advance i then None else Some (advance i))
      \<and> progress (tick t s) = emitted (advance i)
      \<and> progress (tick t s) \<le> 99"
    if inv: "timers_inv s" and fresh: "timers_fresh s" and t: "timers s t = Some i"
  proof -
    from tick_values_interleaved[OF inv fresh t, of es]
    obtain m where m: "m \<le> length es" "tick_values t es s = timer_values m i" by blast
    from inv t have ref: "progressIntervalRef s = Some t" by (simp add: timers_inv_def)
    from m tick_values_consecutive[OF inv t, of n] tick_live[OF t ref]
    show ?thesis
      by (auto simp add: timer_values_sorted timer_values_le_99 emitted_le_99)
  qed
  have reach: "timers_inv s \<and> timers_fresh s" if "run es0 initial_state = Some s"
    using timers_inv_run[OF initial_invs(3) that] timers_fresh_run[OF timers_fresh_initial that]
    by simp
  have phases: "(i < 60 \<longrightarrow> advance i = i + 2)
     \<and> (60 \<le> i \<and> i < 90 \<longrightarrow> advance i = i + 1)
     \<and> (90 \<le> i \<and> i < 99 \<longrightarrow> advance i = i + 1 / 2)
     \<and> (99 \<le> i \<longrightarrow> advance i = i)"
    by (simp add: advance_def)
  have hundred: "progress (invoke_settled k (InvokeResolves d None) s) = 100"
    by (simp add: invoke_settled_def Let_def)
  from live reach phases hundred progress_100_only_on_success[of e s]
    handleAnalyze_starts_at_0[of s]
  show ?thesis
    by (simp add: timer_values_sorted timer_values_le_99 emitted_le_99)
qed

theorem progress_timer_curve_witness:
  "run start_trace initial_state = Some (exec start_trace initial_state)
   \<and> timers_inv (exec start_trace initial_state)
   \<and> timers_fresh (exec start_trace initial_state)
   \<and> timers (exec start_trace initial_state) 1 = Some 0
   \<and> tick_values 1 interleaved_trace (exec start_trace initial_state) = [2, 4, 6]
   \<and> tick_values 1 (replicate 3 (Tick 1)) (exec start_trace initial_state) = timer_values 3 0
   \<and> timer_values 3 0 = [2, 4, 6]
   \<and> timer_values 4 89 = [90, 91, 91, 92]
   \<and> timer_values 5 98 = [99, 99]
   \<and> progress (tick 1 (exec start_trace initial_state)) = 2
   \<and> timers (tick 1 (exec start_trace initial_state)) 1 = Some 2
   \<and> imageFiles (exec upload_trace initial_state) \<noteq> []
   \<and> timers (handleAnalyze (exec upload_trace initial_state)) 1 = Some 0
   \<and> (0::rat) < 60 \<and> advance 0 = 2
   \<and> (60::rat) \<le> 60 \<and> (60::rat) < 90 \<and> advance 60 = 61
   \<and> (90::rat) \<le> 90 \<and> (90::rat) < 99 \<and> advance 90 = 181 / 2 \<and> emitted (181 / 2) = 91
   \<and> (99::rat) \<le> 99 \<and> advance 99 = 99
   \<and> progress (exec start_trace initial_state) \<noteq> 100
   \<and> progress (step (InvokeSettled 0 (InvokeResolves (AnalysisData ''<p>ok</p>'') None))
                 (exec start_trace initial_state)) = 100"
proof -
  let ?s = "exec start_trace initial_state"
  let ?e = "InvokeSettled 0 (InvokeResolves (AnalysisData ''<p>ok</p>'') None)"
  note th = progress_timer_curve[of ?s "Suc 0" 0 interleaved_trace 3 start_trace ?e 0
      "AnalysisData ''<p>ok</p>''"]
  have r: "run start_trace initial_state = Some ?s" by (rule start_trace_state(1))
  from th r have invs: "timers_inv ?s" "timers_fresh ?s" by simp_all
  have t: "timers ?s (Suc 0) = Some 0" by (rule start_trace_state(2))
  from th invs t have cons: "tick_values (Suc 0) (replicate 3 (Tick (Suc 0))) ?s = timer_values 3 0"
    and tk: "progress (tick (Suc 0) ?s) = emitted (advance 0)"
      "timers (tick (Suc 0) ?s) (Suc 0) = (if 99 \<le> advance 0 then None else Some (advance 0))"
    by simp_all
  have vals: "timer_values 3 0 = [2, 4, 6]" "timer_values 4 89 = [90, 91, 91, 92]"
    "timer_values 5 98 = [99, 99]"
    by (simp_all add: numeral_eq_Suc advance_def emitted_def Math_round_def floor_eq_iff)
  have inter: "tick_values (Suc 0) interleaved_trace ?s = [2, 4, 6]"
    by (simp add: interleaved_trace_def start_trace_def eval_defs)
  have em: "emitted (181 / 2) = 91" "emitted 2 = 2" "advance 0 = 2" "advance 60 = 61"
    "advance 90 = 181 / 2" "advance 99 = 99"
    by (simp_all add: emitted_def Math_round_def floor_eq_iff advance_def)
  have up: "imageFiles (exec upload_trace initial_state) \<noteq> []"
    "next_timer (exec upload_trace initial_state) = Suc 0"
    by (simp_all add: upload_trace_def eval_defs)
  from progress_timer_curve[of "exec upload_trace initial_state" 0 0 "[]" 0 "[]" ClickRemove 0 NullData]
    up
  have start: "timers (handleAnalyze (exec upload_trace initial_state)) (Suc 0) = Some 0"
    by simp
  have hundred: "progress (step ?e ?s) = 100" using th by simp
  from r invs t cons tk vals inter em up start hundred show ?thesis
    by (simp add: start_trace_state)
qed

subsection \<open>The success path\<close>




subsection \<open>The failure path\<close>

lemma clear_ref_no_timers: "timers_inv s \<Longrightarrow> timers (clear_ref s) = Map.empty"
proof
  fix t
  assume "timers_inv s"
  then show "timers (clear_ref s) t = None"
    by (cases "timers s t")
       (auto simp add: timers_inv_def clear_ref_def clearInterval_def split: option.splits)
qed

lemma analyze_catch_effect:
  "\<not> isAnalyzing (analyze_catch e s)"
  "progress (analyze_catch e s) = 0"
  "selectedImages (analyze_catch e s) = selectedImages s"
  "imageFiles (analyze_catch e s) = imageFiles s"
  "treatmentPlan (analyze_catch e s) = treatmentPlan s"
  "usage_calls (analyze_catch e s) =
     usage_calls s @ [(''analysis_error'', JNull, Some (errorMessageOf e))]"
  "in_flight (analyze_catch e s) = in_flight s"
  "awaiting_client (analyze_catch e s) = awaiting_client s"
  by (simp_all add: analyze_catch_def small_defs Let_def split: option.splits)

lemma analyze_catch_timers: "timers_inv s \<Longrightarrow> timers (analyze_catch e s) = Map.empty"
proof -
  assume inv: "timers_inv s"
  have "timers_inv (s\<lparr>console := console s @ [(''Error analyzing image:'', e)]\<rparr>)"
    using inv by (simp add: timers_inv_def)
  from clear_ref_no_timers[OF this] show ?thesis
    by (simp add: analyze_catch_def toast_def log_call_def Let_def)
qed

text \<open>
  C5, as stated, fails for a malformed response: a response with neither an error nor
  data takes the success path. From the initial page, such a response leaves the page
  analyzing with the progress at 100 and the interval live; the deferred callback throws
  on \<^verbatim>\<open>data.analysis\<close>; no \<^verbatim>\<open>analysis_error\<close> call is made.
\<close>

theorem null_response_not_a_failure_counterexample:
  "run null_response_trace initial_state = Some (exec null_response_trace initial_state)
   \<and> isAnalyzing (exec null_response_trace initial_state)
   \<and> progress (exec null_response_trace initial_state) = 100
   \<and> timers (exec null_response_trace initial_state) 1 = Some 0
   \<and> usage_calls (exec null_response_trace initial_state)
       = [(''upload'', JObj [(''fileType'', JStr ''image/png''), (''fileSize'', JNum 512000)], None),
          (''analysis_start'', JUndefined, None)]
   \<and> uncaught (exec null_response_trace initial_state)
       = [Error ''Cannot read properties of null (reading 'analysis')'']"
  by (simp add: null_response_trace_def eval_defs)

text \<open>
  C5, amended. When the client cannot be constructed, the request rejects, or the
  response carries an error object, the catch block runs: \<^verbatim>\<open>isAnalyzing\<close> becomes false,
  the images and the report are as before, the progress is 0, the interval of the ref is
  cleared (in a state that satisfies \<open>timers_inv\<close>, as every reachable state does, no
  interval is live afterwards), and exactly one call
  \<^verbatim>\<open>logUsageEvent('analysis_error', null, m)\<close> is added, where \<open>m\<close> is the message of an
  \<^verbatim>\<open>Error\<close> and \<^verbatim>\<open>'Unknown error'\<close> for any other thrown value.
\<close>

theorem failure_returns_to_image_loaded:
  "timers_inv s \<Longrightarrow>
   outcome = InvokeRejects e \<or> outcome = InvokeResolves d (Some e) \<Longrightarrow>
   s' = invoke_settled k outcome s \<or> s' = client_settled k (Some e) s \<Longrightarrow>
     \<not> isAnalyzing s'
     \<and> selectedImages s' = selectedImages s
     \<and> imageFiles s' = imageFiles s
     \<and> treatmentPlan s' = treatmentPlan s
     \<and> progress s' = 0
     \<and> timers s' = Map.empty
     \<and> usage_calls s' = usage_calls s @ [(''analysis_error'', JNull, Some (errorMessageOf e))]
     \<and> errorMessageOf (Error msg) = msg
     \<and> errorMessageOf NonError = ''Unknown error''"
proof -
  assume inv: "timers_inv s"
    and out: "outcome = InvokeRejects e \<or> outcome = InvokeResolves d (Some e)"
    and s': "s' = invoke_settled k outcome s \<or> s' = client_settled k (Some e) s"
  have inv1: "timers_inv (s\<lparr>in_flight := remove_nth k (in_flight s)\<rparr>)"
    and inv2: "timers_inv (s\<lparr>awaiting_client := remove_nth k (awaiting_client s)\<rparr>)"
    using inv by (simp_all add: timers_inv_def)
  from s' show ?thesis
  proof
    assume "s' = invoke_settled k outcome s"
    with out have "s' = analyze_catch e (s\<lparr>in_flight := remove_nth k (in_flight s)\<rparr>)"
      by (auto simp add: invoke_settled_def Let_def)
    then show ?thesis
      by (simp add: analyze_catch_effect analyze_catch_timers[OF inv1])
  next
    assume "s' = client_settled k (Some e) s"
    then have "s' = analyze_catch e (s\<lparr>awaiting_client := remove_nth k (awaiting_client s)\<rparr>)"
      by (simp add: client_settled_def Let_def)
    then show ?thesis
      by (simp add: analyze_catch_effect analyze_catch_timers[OF inv2])
  qed
qed

theorem failure_returns_to_image_loaded_witness:
  "timers_inv (exec start_trace initial_state)
   \<and> isAnalyzing (exec start_trace initial_state)
   \<and> \<not> isAnalyzing (invoke_settled 0 (InvokeRejects (Error ''Failed to fetch''))
          (exec start_trace initial_state))
   \<and> imageFiles (invoke_settled 0 (InvokeRejects (Error ''Failed to fetch''))
          (exec start_trace initial_state)) = [sample_file]
   \<and> progress (invoke_settled 0 (InvokeRejects (Error ''Failed to fetch''))
          (exec start_trace initial_state)) = 0
   \<and> timers (invoke_settled 0 (InvokeRejects (Error ''Failed to fetch''))
          (exec start_trace initial_state)) = Map.empty
   \<and> usage_calls (invoke_settled 0 (InvokeRejects (Error ''Failed to fetch''))
          (exec start_trace initial_state))
       = usage_calls (exec start_trace initial_state)
         @ [(''analysis_error'', JNull, Some ''Failed to fetch'')]"
proof -
  have inv: "timers_inv (exec start_trace initial_state)"
    by (rule timers_inv_run[OF initial_invs(3) start_trace_state(1)])
  from failure_returns_to_image_loaded[OF inv, of "InvokeRejects (Error ''Failed to fetch'')"
      "Error ''Failed to fetch''" NullData
      "invoke_settled 0 (InvokeRejects (Error ''Failed to fetch'')) (exec start_trace initial_state)" 0]
    inv
  show ?thesis
    by (simp add: start_trace_state)
qed

subsection \<open>The interval on the exit paths\<close>

lemma handleClearAll_timers: "timers_inv s \<Longrightarrow> timers (handleClearAll s) = Map.empty"
proof -
  assume inv: "timers_inv s"
  have "timers_inv (s\<lparr>selectedImages := [], imageFiles := [], treatmentPlan := [], progress := 0\<rparr>)"
    using inv by (simp add: timers_inv_def)
  from clear_ref_no_timers[OF this] show ?thesis
    by (simp add: handleClearAll_def toast_def Let_def)
qed

lemma handleClearAll_isAnalyzing: "isAnalyzing (handleClearAll s) = isAnalyzing s"
  by (simp add: handleClearAll_def small_defs Let_def split: option.splits)

text \<open>
  C3. The catch block and \<^verbatim>\<open>handleClearAll\<close> clear the interval (the two lemmas above and
  \<open>analyze_catch_timers\<close>; clearing leaves \<^verbatim>\<open>isAnalyzing\<close> as it is). The success path
  does not: neither the arrival of the response nor the deferred callback touches the
  intervals. From the initial page: the interval fires once (counter 2), the report
  arrives (progress 100), the deferred callback stores it and leaves the analyzing state
  with the interval still live, and the next firing overwrites the progress with 4.
\<close>

theorem timer_survives_success:
  "timers (invoke_settled k (InvokeResolves d None) s) = timers s
   \<and> timers (success_timeout k s) = timers s
   \<and> run stale_tick_trace initial_state = Some (exec stale_tick_trace initial_state)
   \<and> progress (exec (butlast stale_tick_trace) initial_state) = 100
   \<and> \<not> isAnalyzing (exec (butlast stale_tick_trace) initial_state)
   \<and> timers (exec (butlast stale_tick_trace) initial_state) 1 = Some 2
   \<and> \<not> isAnalyzing (exec stale_tick_trace initial_state)
   \<and> treatmentPlan (exec stale_tick_trace initial_state) = ''<p>ok</p>''
   \<and> progress (exec stale_tick_trace initial_state) = 4
   \<and> timers (exec stale_tick_trace initial_state) 1 = Some 4"
proof -
  have a: "timers (invoke_settled k (InvokeResolves d None) s) = timers s"
    by (simp add: invoke_settled_def Let_def)
  have b: "timers (success_timeout k s) = timers s"
    by (simp add: success_timeout_def small_defs Let_def split: response_data.splits)
  have c: "run stale_tick_trace initial_state = Some (exec stale_tick_trace initial_state)"
    by (simp add: stale_tick_trace_def eval_defs)
  have d: "progress (exec (butlast stale_tick_trace) initial_state) = 100"
    "\<not> isAnalyzing (exec (butlast stale_tick_trace) initial_state)"
    "timers (exec (butlast stale_tick_trace) initial_state) 1 = Some 2"
    by (simp_all add: stale_tick_trace_def eval_defs)
  have e: "\<not> isAnalyzing (exec stale_tick_trace initial_state)"
    "treatmentPlan (exec stale_tick_trace initial_state) = ''<p>ok</p>''"
    "progress (exec stale_tick_trace initial_state) = 4"
    "timers (exec stale_tick_trace initial_state) 1 = Some 4"
    by (simp_all add: stale_tick_trace_def eval_defs)
  from a b c d e show ?thesis by simp
qed

subsection \<open>Re-entrant analysis\<close>

text \<open>
  C2, as stated, fails: \<^verbatim>\<open>handleAnalyze\<close> does not look at \<^verbatim>\<open>isAnalyzing\<close>. Invoked on a
  page that is analyzing with one request in flight, it starts a second run, and once
  its client is ready two requests are in flight.
\<close>

theorem handleAnalyze_reentrant_counterexample:
  "run start_trace initial_state = Some (exec start_trace initial_state)
   \<and> isAnalyzing (exec start_trace initial_state)
   \<and> length (in_flight (exec start_trace initial_state)) = 1
   \<and> length (in_flight (client_settled 0 None (handleAnalyze (exec start_trace initial_state)))) = 2
   \<and> isAnalyzing (client_settled 0 None (handleAnalyze (exec start_trace initial_state)))"
  by (simp add: start_trace_state)
     (simp add: handleAnalyze_def client_settled_def small_defs Let_def start_trace_state
        remove_nth_def)

text \<open>
  C2, amended. The guard is in the view: the analyze button is disabled while
  \<^verbatim>\<open>isAnalyzing\<close> is set. In every state reached from the initial page by events that can
  occur (clicks only on buttons that are rendered and not disabled), at most one analysis
  run is pending, so at most one remote request is in flight; a click on the analyze
  button cannot occur while the page is analyzing, and when it can occur no run is
  pending.
\<close>

theorem analyze_guarded_by_view:
  "run es initial_state = Some s \<Longrightarrow>
     length (in_flight s) \<le> 1
     \<and> pending_runs s \<le> 1
     \<and> (isAnalyzing s \<longrightarrow> \<not> enabled s ClickAnalyze)
     \<and> (enabled s ClickAnalyze \<longrightarrow> pending_runs s = 0)"
proof -
  assume "run es initial_state = Some s"
  from run_inv_run[OF initial_invs(1) this] have inv: "run_inv s" .
  then have "pending_runs s \<le> 1" by (simp add: run_inv_def)
  moreover from this have "length (in_flight s) \<le> 1" by (simp add: pending_runs_def)
  moreover have "isAnalyzing s \<longrightarrow> \<not> enabled s ClickAnalyze"
    by (simp add: analyze_button_def)
  moreover have "enabled s ClickAnalyze \<longrightarrow> pending_runs s = 0"
    using inv by (auto simp add: analyze_button_def run_inv_def split: if_splits)
  ultimately show ?thesis by simp
qed

theorem analyze_guarded_by_view_witness:
  "run start_trace initial_state = Some (exec start_trace initial_state)
   \<and> length (in_flight (exec start_trace initial_state)) = 1
   \<and> isAnalyzing (exec start_trace initial_state)
   \<and> \<not> enabled (exec start_trace initial_state) ClickAnalyze
   \<and> enabled (exec upload_trace initial_state) ClickAnalyze
   \<and> run upload_trace initial_state = Some (exec upload_trace initial_state)
   \<and> pending_runs (exec upload_trace initial_state) = 0"
proof -
  have u: "run upload_trace initial_state = Some (exec upload_trace initial_state)"
    "enabled (exec upload_trace initial_state) ClickAnalyze"
    by (simp_all add: upload_trace_def eval_defs)
  from analyze_guarded_by_view[OF start_trace_state(1)] analyze_guarded_by_view[OF u(1)] u
  show ?thesis
    by (simp add: start_trace_state)
qed

end
